theory Spec2Isabelle
  imports Complex_Main "HOL-Library.Word"
begin

unbundle bit_operations_syntax

section \<open>Data model\<close>

text \<open>
  The blemish removal tool (blemish_removal.cpp) works on \<open>cv::Mat\<close> images loaded with
  \<open>IMREAD_COLOR\<close>: 8-bit, three channels, in B, G, R order. A matrix is modelled by its
  list of rows; the default-constructed \<open>cv::Mat\<close> is the empty list. C++ \<open>int\<close>
  coordinates are mathematical integers (signed overflow is undefined behaviour in the
  source and is outside the model), and \<open>double\<close>/\<open>float\<close> values are exact rationals:
  binary rounding is not modelled.
\<close>

type_synonym pixel = "8 word \<times> 8 word \<times> 8 word"

type_synonym 'a mat = "'a list list"

type_synonym point = "int \<times> int"

definition rows :: "'a mat \<Rightarrow> int" where
  "rows m = int (length m)"

definition cols :: "'a mat \<Rightarrow> int" where
  "cols m = (case m of [] \<Rightarrow> 0 | r # _ \<Rightarrow> int (length r))"

text \<open>\<open>cv::Mat::empty()\<close>: no rows or no columns.\<close>

definition empty_mat :: "'a mat \<Rightarrow> bool" where
  "empty_mat m = (rows m = 0 \<or> cols m = 0)"

text \<open>A well-formed matrix is rectangular: every row has \<open>cols\<close> elements.\<close>

definition rectangular :: "'a mat \<Rightarrow> bool" where
  "rectangular m = list_all (\<lambda>r. int (length r) = cols m) m"

definition elemAt :: "'a mat \<Rightarrow> int \<Rightarrow> int \<Rightarrow> 'a" where
  "elemAt m y x = m ! nat y ! nat x"

text \<open>
  \<open>cv::Mat::clone()\<close>: on matrices as values a deep copy is the same value. Which buffer
  a matrix shares or owns is the subject of the section on matrices in memory.
\<close>

definition clone :: "'a mat \<Rightarrow> 'a mat" where
  "clone m = m"

text \<open>
  Failures of the OpenCV primitives are \<open>cv::Exception\<close>s raised by \<open>CV_Assert\<close>; they are
  values of the model.
\<close>

datatype error =
    EmptySource           \<comment> \<open>\<open>cvtColor\<close>: \<open>CV_Assert(!_src.empty())\<close>\<close>
  | BadRange              \<comment> \<open>\<open>Mat(m, rowRange, colRange)\<close>: \<open>0 <= start <= end <= size\<close>\<close>
  | CloneFailed           \<comment> \<open>any exception raised inside \<open>cv::seamlessClone\<close>\<close>

text \<open>A \<open>double\<close> that may be \<open>+infinity\<close> (the initial \<open>minVariance\<close>).\<close>

datatype double = Fin rat | Infinity

fun less_double :: "rat \<Rightarrow> double \<Rightarrow> bool" where
  "less_double v Infinity = True"
| "less_double v (Fin m) = (v < m)"

section \<open>OpenCV primitives used by the tool\<close>

text \<open>
  \<open>image(cv::Range(y0, y1), cv::Range(x0, x1))\<close>: the sub-matrix of rows \<open>y0 ..< y1\<close> and
  columns \<open>x0 ..< x1\<close>. OpenCV asserts that both ranges lie inside the matrix.
\<close>

definition submat :: "'a mat \<Rightarrow> int \<times> int \<Rightarrow> int \<times> int \<Rightarrow> error + 'a mat" where
  "submat m rowRange colRange =
     (let y0 = fst rowRange; y1 = snd rowRange; x0 = fst colRange; x1 = snd colRange in
      if 0 \<le> y0 \<and> y0 \<le> y1 \<and> y1 \<le> rows m \<and> 0 \<le> x0 \<and> x0 \<le> x1 \<and> x1 \<le> cols m
      then Inr (map (\<lambda>r. take (nat (x1 - x0)) (drop (nat x0) r))
                    (take (nat (y1 - y0)) (drop (nat y0) m)))
      else Inl BadRange)"

text \<open>
  \<open>cv::cvtColor(patch, hsv, COLOR_BGR2HSV)\<close>, \<open>cv::split\<close> and \<open>channels[2]\<close>: only the V
  plane of the HSV image is read afterwards, and for 8-bit input V is the largest of the
  three colour bytes. \<open>cvtColor\<close> rejects an empty source.
\<close>

definition hsvValue :: "pixel \<Rightarrow> 8 word" where
  "hsvValue p = (case p of (b, g, r) \<Rightarrow> max b (max g r))"

definition cvtColor_split_V :: "pixel mat \<Rightarrow> error + 8 word mat" where
  "cvtColor_split_V src = (if empty_mat src then Inl EmptySource else Inr (map (map hsvValue) src))"

text \<open>
  \<open>BORDER_DEFAULT\<close> is \<open>BORDER_REFLECT_101\<close>: index \<open>-1\<close> reads index \<open>1\<close> and index \<open>len\<close>
  reads \<open>len - 2\<close>; a single row or column reads itself. One reflection is enough for
  the 3x3 aperture.
\<close>

definition borderInterpolate :: "int \<Rightarrow> int \<Rightarrow> int" where
  "borderInterpolate p len =
     (if 0 \<le> p \<and> p < len then p
      else if len = 1 then 0
      else if p < 0 then - p - 1 + 1
      else len - 1 - (p - len) - 1)"

text \<open>
  \<open>cv::Laplacian(src, dst, CV_32F, 3, scale, 0, BORDER_DEFAULT)\<close>: for aperture size 3
  OpenCV filters with the kernel \<open>2 0 2 / 0 -8 0 / 2 0 2\<close> multiplied by \<open>scale\<close>.
\<close>

definition laplacianKernel :: "(int \<times> int \<times> rat) list" where
  "laplacianKernel =
     [(-1, -1, 2), (-1, 0, 0), (-1, 1, 2),
      ( 0, -1, 0), ( 0, 0, -8), ( 0, 1, 0),
      ( 1, -1, 2), ( 1, 0, 0), ( 1, 1, 2)]"

definition laplacianAt :: "8 word mat \<Rightarrow> rat \<Rightarrow> int \<Rightarrow> int \<Rightarrow> rat" where
  "laplacianAt src scale y x =
     sum_list (map (\<lambda>(dy, dx, k).
                 k * scale * of_nat (unat (elemAt src (borderInterpolate (y + dy) (rows src))
                                                  (borderInterpolate (x + dx) (cols src)))))
               laplacianKernel)"

definition Laplacian :: "8 word mat \<Rightarrow> rat \<Rightarrow> rat mat" where
  "Laplacian src scale =
     map (\<lambda>y. map (\<lambda>x. laplacianAt src scale (int y) (int x)) [0 ..< nat (cols src)])
         [0 ..< nat (rows src)]"

text \<open>\<open>cv::pow(lap, 2.0, lap2)\<close> and \<open>cv::sum(lap2)[0]\<close>.\<close>

definition pow_mat :: "rat mat \<Rightarrow> nat \<Rightarrow> rat mat" where
  "pow_mat m n = map (map (\<lambda>v. v ^ n)) m"

definition sum_mat :: "rat mat \<Rightarrow> rat" where
  "sum_mat m = sum_list (map sum_list m)"

section \<open>computePatchVariance\<close>

definition computePatchVariance :: "pixel mat \<Rightarrow> error + rat" where
  "computePatchVariance patch =
     (case cvtColor_split_V patch of
        Inl e \<Rightarrow> Inl e
      | Inr v \<Rightarrow>
          (let lap = Laplacian v (1 / (255 * 3 * 2));
               lap2 = pow_mat lap 2
           in Inr (sum_mat lap2)))"

section \<open>selectBestPatch\<close>

text \<open>\<open>static_cast<int>\<close> of a \<open>double\<close> truncates towards zero.\<close>

definition static_cast_int :: "rat \<Rightarrow> int" where
  "static_cast_int q = (if 0 \<le> q then \<lfloor>q\<rfloor> else \<lceil>q\<rceil>)"

text \<open>
  The eight directions in the order of the source. Image rows grow downwards, so
  \<open>(1, 0)\<close> is east, \<open>(0, 1)\<close> south, \<open>(-1, 0)\<close> west and \<open>(0, -1)\<close> north: the
  enumeration is E, SE, S, SW, W, NW, N, NE.
\<close>

definition kDirs :: "(rat \<times> rat) list" where
  "kDirs =
     [(1, 0), (7071 / 10000, 7071 / 10000), (0, 1), (- (7071 / 10000), 7071 / 10000),
      (-1, 0), (- (7071 / 10000), - (7071 / 10000)), (0, -1), (7071 / 10000, - (7071 / 10000))]"

definition srcCenter :: "point \<Rightarrow> int \<Rightarrow> rat \<times> rat \<Rightarrow> point" where
  "srcCenter center radius d =
     (static_cast_int (of_int (fst center) + fst d * of_int radius * 2),
      static_cast_int (of_int (snd center) + snd d * of_int radius * 2))"

text \<open>The patch bounds \<open>x0, y0, x1, y1\<close> of the candidate in direction \<open>d\<close>.\<close>

definition bound_x0 :: "point \<Rightarrow> int \<Rightarrow> rat \<times> rat \<Rightarrow> int" where
  "bound_x0 center radius d = fst (srcCenter center radius d) - radius"

definition bound_y0 :: "point \<Rightarrow> int \<Rightarrow> rat \<times> rat \<Rightarrow> int" where
  "bound_y0 center radius d = snd (srcCenter center radius d) - radius"

definition bound_x1 :: "point \<Rightarrow> int \<Rightarrow> rat \<times> rat \<Rightarrow> int" where
  "bound_x1 center radius d = fst (srcCenter center radius d) + radius + 1"

definition bound_y1 :: "point \<Rightarrow> int \<Rightarrow> rat \<times> rat \<Rightarrow> int" where
  "bound_y1 center radius d = snd (srcCenter center radius d) + radius + 1"

text \<open>The condition under which the loop body does \<open>continue\<close>.\<close>

definition outOfBounds :: "pixel mat \<Rightarrow> point \<Rightarrow> int \<Rightarrow> rat \<times> rat \<Rightarrow> bool" where
  "outOfBounds img center radius d =
     (bound_x0 center radius d < 0 \<or> bound_y0 center radius d < 0 \<or>
      bound_x1 center radius d > cols img \<or> bound_y1 center radius d > rows img)"

text \<open>
  The loop over the directions; the state is \<open>(minVariance, bestPatch)\<close>. An exception of
  an OpenCV call leaves the function.
\<close>

fun selectLoop ::
  "pixel mat \<Rightarrow> point \<Rightarrow> int \<Rightarrow> (rat \<times> rat) list \<Rightarrow> double \<times> pixel mat
     \<Rightarrow> error + (double \<times> pixel mat)" where
  "selectLoop img center radius [] st = Inr st"
| "selectLoop img center radius (d # ds) (minVariance, bestPatch) =
     (if outOfBounds img center radius d
      then selectLoop img center radius ds (minVariance, bestPatch)
      else
        (case submat img (bound_y0 center radius d, bound_y1 center radius d)
                           (bound_x0 center radius d, bound_x1 center radius d) of
           Inl e \<Rightarrow> Inl e
         | Inr patch \<Rightarrow>
             (case computePatchVariance patch of
                Inl e \<Rightarrow> Inl e
              | Inr var \<Rightarrow>
                  if less_double var minVariance
                  then selectLoop img center radius ds (Fin var, clone patch)
                  else selectLoop img center radius ds (minVariance, bestPatch))))"

definition selectBestPatch :: "pixel mat \<Rightarrow> point \<Rightarrow> int \<Rightarrow> error + pixel mat" where
  "selectBestPatch img center radius =
     (case selectLoop img center radius kDirs (Infinity, []) of
        Inl e \<Rightarrow> Inl e
      | Inr st \<Rightarrow> Inr (snd st))"

text \<open>
  One iteration of the loop body past the bounds check: the extracted patch of the
  candidate in direction \<open>d\<close> with its score, or the exception of the OpenCV call.
\<close>

definition candidate :: "pixel mat \<Rightarrow> point \<Rightarrow> int \<Rightarrow> rat \<times> rat \<Rightarrow> error + (rat \<times> pixel mat)" where
  "candidate img center radius d =
     (case submat img (bound_y0 center radius d, bound_y1 center radius d)
                      (bound_x0 center radius d, bound_x1 center radius d) of
        Inl e \<Rightarrow> Inl e
      | Inr patch \<Rightarrow>
          (case computePatchVariance patch of
             Inl e \<Rightarrow> Inl e
           | Inr var \<Rightarrow> Inr (var, patch)))"

text \<open>The update of \<open>(minVariance, bestPatch)\<close> by a scored candidate.\<close>

fun pick :: "double \<times> pixel mat \<Rightarrow> rat \<times> pixel mat \<Rightarrow> double \<times> pixel mat" where
  "pick (minVariance, bestPatch) (var, patch) =
     (if less_double var minVariance then (Fin var, clone patch) else (minVariance, bestPatch))"

text \<open>All eight candidates pass the bounds check of the loop.\<close>

definition allInBounds :: "pixel mat \<Rightarrow> point \<Rightarrow> int \<Rightarrow> bool" where
  "allInBounds img center radius = list_all (\<lambda>d. \<not> outOfBounds img center radius d) kDirs"

text \<open>No candidate passes the bounds check.\<close>

definition noneInBounds :: "pixel mat \<Rightarrow> point \<Rightarrow> int \<Rightarrow> bool" where
  "noneInBounds img center radius = list_all (outOfBounds img center radius) kDirs"

section \<open>onMouse and runBlemishRemoval\<close>

definition kDefaultRad :: int where
  "kDefaultRad = 20"

definition EVENT_LBUTTONDOWN :: int where
  "EVENT_LBUTTONDOWN = 1"

text \<open>
  \<open>cv::circle\<close> and \<open>cv::seamlessClone\<close> are OpenCV routines that the tool only calls:
  they are parameters of the model. \<open>seamlessClone cv src dst mask p\<close> is the blended image
  written to the output argument, or the exception the call raises.
\<close>

record opencv =
  circle :: "8 word mat \<Rightarrow> point \<Rightarrow> int \<Rightarrow> 8 word \<Rightarrow> 8 word mat"
  seamlessClone :: "pixel mat \<Rightarrow> pixel mat \<Rightarrow> 8 word mat \<Rightarrow> point \<Rightarrow> error + pixel mat"

text \<open>\<open>cv::Mat::zeros(patch.size(), CV_8UC1)\<close>.\<close>

definition zeros :: "int \<Rightarrow> int \<Rightarrow> 8 word mat" where
  "zeros nrows ncols = replicate (nat nrows) (replicate (nat ncols) 0)"

text \<open>
  The mouse callback. The global \<open>g_sourceImage\<close> is passed in and its new value is
  returned.
\<close>

definition onMouse :: "opencv \<Rightarrow> int \<Rightarrow> int \<Rightarrow> int \<Rightarrow> pixel mat \<Rightarrow> error + pixel mat" where
  "onMouse cv event x y g_sourceImage =
     (if event \<noteq> EVENT_LBUTTONDOWN then Inr g_sourceImage
      else
        (let center = (x, y) in
         case selectBestPatch g_sourceImage center kDefaultRad of
           Inl e \<Rightarrow> Inl e
         | Inr patch \<Rightarrow>
             if empty_mat patch then Inr g_sourceImage
             else
               (let mask = zeros (rows patch) (cols patch);
                    mask = circle cv mask (kDefaultRad, kDefaultRad) kDefaultRad 255
                in seamlessClone cv patch g_sourceImage mask center)))"

text \<open>
  The mouse events \<open>(event, x, y)\<close> that the window delivers to the callback, one after
  the other; an exception ends the run.
\<close>

fun dispatch :: "opencv \<Rightarrow> (int \<times> int \<times> int) list \<Rightarrow> pixel mat \<Rightarrow> error + pixel mat" where
  "dispatch cv [] g_sourceImage = Inr g_sourceImage"
| "dispatch cv ((event, x, y) # ms) g_sourceImage =
     (case onMouse cv event x y g_sourceImage of
        Inl e \<Rightarrow> Inl e
      | Inr g \<Rightarrow> dispatch cv ms g)"

text \<open>
  The \<open>while (true)\<close> loop of \<open>runBlemishRemoval\<close>. One iteration shows the image and calls
  \<open>cv::waitKey(20)\<close>, during which the mouse callbacks of that interval run and which
  then returns a key code (\<open>-1\<close> for none): an iteration consumes one pair of the mouse
  events and the key code. The result is the value of \<open>g_sourceImage\<close> and whether
  the loop was left by Esc; on a finite input without Esc the loop is still waiting.
\<close>

fun eventLoop ::
  "opencv \<Rightarrow> pixel mat \<Rightarrow> ((int \<times> int \<times> int) list \<times> int) list \<Rightarrow> pixel mat
     \<Rightarrow> error + (bool \<times> pixel mat)" where
  "eventLoop cv original [] g_sourceImage = Inr (False, g_sourceImage)"
| "eventLoop cv original ((ms, k) # ts) g_sourceImage =
     (case dispatch cv ms g_sourceImage of
        Inl e \<Rightarrow> Inl e
      | Inr g \<Rightarrow>
          (let key = k AND 255 in
           if key = 27 then Inr (True, g)
           else if key = 99 \<or> key = 67 then eventLoop cv original ts original
           else eventLoop cv original ts g))"

definition runBlemishRemoval ::
  "opencv \<Rightarrow> pixel mat \<Rightarrow> ((int \<times> int \<times> int) list \<times> int) list \<Rightarrow> error + (bool \<times> pixel mat)" where
  "runBlemishRemoval cv img ts =
     (let g_sourceImage = clone img;
          original = clone img
      in eventLoop cv original ts g_sourceImage)"

section \<open>Matrices in memory\<close>

text \<open>
  A \<open>cv::Mat\<close> is a header over a shared pixel buffer: the range operator makes a header
  onto the same buffer, \<open>clone()\<close> copies the pixels into a new one, and an OpenCV routine
  given a default-constructed output matrix allocates the buffer it writes. To state what
  the functions leave unchanged, the memory is the list of the buffers allocated so far,
  an address is an index into it, and allocation appends. A header is empty, the whole
  of a buffer, or the window of \<open>h\<close> rows and \<open>w\<close> columns at row \<open>y0\<close> and column \<open>x0\<close> of a
  buffer.
\<close>

datatype buffer = Buf8UC3 "pixel mat" | Buf8UC1 "8 word mat" | Buf32FC1 "rat mat"

type_synonym memory = "buffer list"

datatype Mat = EmptyMat | Full nat | Roi nat int int int int

fun pixelsOf :: "buffer \<Rightarrow> pixel mat" where
  "pixelsOf (Buf8UC3 m) = m"
| "pixelsOf (Buf8UC1 m) = []"
| "pixelsOf (Buf32FC1 m) = []"

fun bytesOf :: "buffer \<Rightarrow> 8 word mat" where
  "bytesOf (Buf8UC1 m) = m"
| "bytesOf (Buf8UC3 m) = []"
| "bytesOf (Buf32FC1 m) = []"

fun floatsOf :: "buffer \<Rightarrow> rat mat" where
  "floatsOf (Buf32FC1 m) = m"
| "floatsOf (Buf8UC3 m) = []"
| "floatsOf (Buf8UC1 m) = []"

definition window :: "'a mat \<Rightarrow> int \<Rightarrow> int \<Rightarrow> int \<Rightarrow> int \<Rightarrow> 'a mat" where
  "window m y0 x0 h w = map (\<lambda>r. take (nat w) (drop (nat x0) r)) (take (nat h) (drop (nat y0) m))"

text \<open>The pixels a header of an 8-bit colour matrix shows.\<close>

fun pixels :: "memory \<Rightarrow> Mat \<Rightarrow> pixel mat" where
  "pixels mem EmptyMat = []"
| "pixels mem (Full a) = pixelsOf (mem ! a)"
| "pixels mem (Roi a y0 x0 h w) = window (pixelsOf (mem ! a)) y0 x0 h w"

text \<open>The same for the single-channel 8-bit and float matrices of the locals.\<close>

fun bytes :: "memory \<Rightarrow> Mat \<Rightarrow> 8 word mat" where
  "bytes mem EmptyMat = []"
| "bytes mem (Full a) = bytesOf (mem ! a)"
| "bytes mem (Roi a y0 x0 h w) = window (bytesOf (mem ! a)) y0 x0 h w"

fun floats :: "memory \<Rightarrow> Mat \<Rightarrow> rat mat" where
  "floats mem EmptyMat = []"
| "floats mem (Full a) = floatsOf (mem ! a)"
| "floats mem (Roi a y0 x0 h w) = window (floatsOf (mem ! a)) y0 x0 h w"

text \<open>A header is valid in a memory when its buffer has been allocated.\<close>

fun validMat :: "memory \<Rightarrow> Mat \<Rightarrow> bool" where
  "validMat mem EmptyMat = True"
| "validMat mem (Full a) = (a < length mem)"
| "validMat mem (Roi a y0 x0 h w) = (a < length mem)"

fun Mat_rows :: "memory \<Rightarrow> Mat \<Rightarrow> int" where
  "Mat_rows mem EmptyMat = 0"
| "Mat_rows mem (Full a) = rows (pixelsOf (mem ! a))"
| "Mat_rows mem (Roi a y0 x0 h w) = h"

fun Mat_cols :: "memory \<Rightarrow> Mat \<Rightarrow> int" where
  "Mat_cols mem EmptyMat = 0"
| "Mat_cols mem (Full a) = cols (pixelsOf (mem ! a))"
| "Mat_cols mem (Roi a y0 x0 h w) = w"

text \<open>\<open>m(cv::Range(y0, y1), cv::Range(x0, x1))\<close>: a header onto the buffer of \<open>m\<close>; no pixel is copied.\<close>

definition Mat_range :: "memory \<Rightarrow> Mat \<Rightarrow> int \<times> int \<Rightarrow> int \<times> int \<Rightarrow> error + Mat" where
  "Mat_range mem m rowRange colRange =
     (let y0 = fst rowRange; y1 = snd rowRange; x0 = fst colRange; x1 = snd colRange in
      if 0 \<le> y0 \<and> y0 \<le> y1 \<and> y1 \<le> Mat_rows mem m \<and> 0 \<le> x0 \<and> x0 \<le> x1 \<and> x1 \<le> Mat_cols mem m
      then Inr (case m of
                  EmptyMat \<Rightarrow> EmptyMat
                | Full a \<Rightarrow> Roi a y0 x0 (y1 - y0) (x1 - x0)
                | Roi a y x h w \<Rightarrow> Roi a (y + y0) (x + x0) (y1 - y0) (x1 - x0))
      else Inl BadRange)"

text \<open>Allocation of a new buffer: its address is the next free index.\<close>

definition alloc :: "memory \<Rightarrow> buffer \<Rightarrow> Mat \<times> memory" where
  "alloc mem b = (Full (length mem), mem @ [b])"

text \<open>\<open>m.clone()\<close>: the pixels that \<open>m\<close> shows, copied into a new buffer.\<close>

definition Mat_clone :: "memory \<Rightarrow> Mat \<Rightarrow> Mat \<times> memory" where
  "Mat_clone mem m =
     (case m of
        EmptyMat \<Rightarrow> (EmptyMat, mem)
      | _ \<Rightarrow> alloc mem (Buf8UC3 (pixels mem m)))"

text \<open>
  \<open>computePatchVariance\<close> in memory. Its input is read through the header \<open>patch\<close>; the
  outputs of the OpenCV calls are the default-constructed locals \<open>channels\<close>, \<open>lap\<close> and
  \<open>lap2\<close>, so each call allocates the buffer it fills. Of \<open>hsv\<close> and \<open>channels\<close> only the V
  plane is kept, as before. The buffers of the locals are not reclaimed in the model.
\<close>

definition computePatchVariance_mem :: "memory \<Rightarrow> Mat \<Rightarrow> error + (rat \<times> memory)" where
  "computePatchVariance_mem mem patch =
     (case cvtColor_split_V (pixels mem patch) of
        Inl e \<Rightarrow> Inl e
      | Inr v \<Rightarrow>
          (case alloc mem (Buf8UC1 v) of (channels2, mem1) \<Rightarrow>
           case alloc mem1 (Buf32FC1 (Laplacian (bytes mem1 channels2) (1 / (255 * 3 * 2)))) of (lap, mem2) \<Rightarrow>
           case alloc mem2 (Buf32FC1 (pow_mat (floats mem2 lap) 2)) of (lap2, mem3) \<Rightarrow>
             Inr (sum_mat (floats mem3 lap2), mem3)))"

text \<open>
  \<open>selectBestPatch\<close> in memory: \<open>patch\<close> is a header onto the buffer of \<open>image\<close>, and
  \<open>bestPatch\<close> receives a clone of it.
\<close>

definition outOfBounds_mem :: "memory \<Rightarrow> Mat \<Rightarrow> point \<Rightarrow> int \<Rightarrow> rat \<times> rat \<Rightarrow> bool" where
  "outOfBounds_mem mem img center radius d =
     (bound_x0 center radius d < 0 \<or> bound_y0 center radius d < 0 \<or>
      bound_x1 center radius d > Mat_cols mem img \<or> bound_y1 center radius d > Mat_rows mem img)"

fun selectLoop_mem ::
  "memory \<Rightarrow> Mat \<Rightarrow> point \<Rightarrow> int \<Rightarrow> (rat \<times> rat) list \<Rightarrow> double \<times> Mat
     \<Rightarrow> error + ((double \<times> Mat) \<times> memory)" where
  "selectLoop_mem mem img center radius [] st = Inr (st, mem)"
| "selectLoop_mem mem img center radius (d # ds) (minVariance, bestPatch) =
     (if outOfBounds_mem mem img center radius d
      then selectLoop_mem mem img center radius ds (minVariance, bestPatch)
      else
        (case Mat_range mem img (bound_y0 center radius d, bound_y1 center radius d)
                                (bound_x0 center radius d, bound_x1 center radius d) of
           Inl e \<Rightarrow> Inl e
         | Inr patch \<Rightarrow>
             (case computePatchVariance_mem mem patch of
                Inl e \<Rightarrow> Inl e
              | Inr (var, mem1) \<Rightarrow>
                  if less_double var minVariance
                  then (case Mat_clone mem1 patch of
                          (copy, mem2) \<Rightarrow> selectLoop_mem mem2 img center radius ds (Fin var, copy))
                  else selectLoop_mem mem1 img center radius ds (minVariance, bestPatch))))"

definition selectBestPatch_mem :: "memory \<Rightarrow> Mat \<Rightarrow> point \<Rightarrow> int \<Rightarrow> error + (Mat \<times> memory)" where
  "selectBestPatch_mem mem img center radius =
     (case selectLoop_mem mem img center radius kDirs (Infinity, EmptyMat) of
        Inl e \<Rightarrow> Inl e
      | Inr (st, mem') \<Rightarrow> Inr (snd st, mem'))"

text \<open>A later write through a header: the buffer at its address is replaced.\<close>

fun overwrite :: "memory \<Rightarrow> Mat \<Rightarrow> buffer \<Rightarrow> memory" where
  "overwrite mem EmptyMat b = mem"
| "overwrite mem (Full a) b = mem[a := b]"
| "overwrite mem (Roi a y0 x0 h w) b = mem[a := b]"

text \<open>What a result in memory shows: the pixels under the returned header.\<close>

fun shownState :: "(double \<times> Mat) \<times> memory \<Rightarrow> double \<times> pixel mat" where
  "shownState ((minVariance, bestPatch), mem) = (minVariance, pixels mem bestPatch)"

fun shownPatch :: "Mat \<times> memory \<Rightarrow> pixel mat" where
  "shownPatch (bestPatch, mem) = pixels mem bestPatch"

section \<open>The selection as the specification words it\<close>

text \<open>
  The specification describes the selector without the loop: of the in-bounds
  candidates, taken in a fixed order of directions, the first one whose score is the
  minimum; no donor (the empty matrix) when there is none. \<open>selectInOrder\<close> is that
  description for a given order, and \<open>specOrder\<close> is the order the specification names:
  N, NE, E, SE, S, SW, W, NW (north is \<open>(0, -1)\<close>, rows growing downwards).
\<close>

definition firstMinimal :: "(rat \<times> 'a) list \<Rightarrow> (rat \<times> 'a) option" where
  "firstMinimal cs = find (\<lambda>c. list_all (\<lambda>c'. fst c \<le> fst c') cs) cs"

fun collect :: "(error + 'a) list \<Rightarrow> error + 'a list" where
  "collect [] = Inr []"
| "collect (Inl e # xs) = Inl e"
| "collect (Inr x # xs) = (case collect xs of Inl e \<Rightarrow> Inl e | Inr ys \<Rightarrow> Inr (x # ys))"

definition selectInOrder :: "(rat \<times> rat) list \<Rightarrow> pixel mat \<Rightarrow> point \<Rightarrow> int \<Rightarrow> error + pixel mat" where
  "selectInOrder dirs img center radius =
     (case collect (map (candidate img center radius)
                        (filter (\<lambda>d. \<not> outOfBounds img center radius d) dirs)) of
        Inl e \<Rightarrow> Inl e
      | Inr cs \<Rightarrow> (case firstMinimal cs of None \<Rightarrow> Inr [] | Some c \<Rightarrow> Inr (snd c)))"

definition specOrder :: "(rat \<times> rat) list" where
  "specOrder =
     [(0, -1), (7071 / 10000, - (7071 / 10000)), (1, 0), (7071 / 10000, 7071 / 10000),
      (0, 1), (- (7071 / 10000), 7071 / 10000), (-1, 0), (- (7071 / 10000), - (7071 / 10000))]"


section \<open>Example inputs\<close>

definition gray :: "nat \<Rightarrow> pixel" where
  "gray v = (of_nat v, of_nat v, of_nat v)"

text \<open>
  A 7x7 image: black, with a 3x3 block of gray level 8 on the left and one pixel of
  level 7 on the right. With the centre \<open>(3, 3)\<close> and radius 1 all eight candidates are
  inside the image. The patches of one level score zero; levels 0 and 8 are chosen
  because their products with the kernel are exact in binary floating point too.
\<close>

definition exampleImage :: "pixel mat" where
  "exampleImage = map (map gray)
     [[0, 0, 0, 0, 0, 0, 0],
      [0, 0, 0, 0, 0, 0, 0],
      [0, 0, 0, 0, 0, 0, 0],
      [8, 8, 8, 0, 0, 0, 0],
      [8, 8, 8, 0, 0, 7, 0],
      [8, 8, 8, 0, 0, 0, 0],
      [0, 0, 0, 0, 0, 0, 0]]"

text \<open>A uniformly gray 50x50 image, and the same image in black.\<close>

definition grayImage :: "pixel mat" where
  "grayImage = replicate 50 (replicate 50 (gray 100))"

definition blackImage :: "pixel mat" where
  "blackImage = replicate 50 (replicate 50 (gray 0))"

text \<open>
  A stand-in for the two OpenCV routines, to instantiate the theorems that hold for any
  of them: \<open>circle\<close> leaves the mask as it is and \<open>seamlessClone\<close> blackens the
  destination.
\<close>

definition stubOpenCV :: opencv where
  "stubOpenCV =
     \<lparr> circle = (\<lambda>m c r v. m),
       seamlessClone = (\<lambda>src dst mask p. Inr (map (map (\<lambda>_. gray 0)) dst)) \<rparr>"

text \<open>A memory that holds \<open>exampleImage\<close> in its only buffer.\<close>

definition exampleMemory :: memory where
  "exampleMemory = [Buf8UC3 exampleImage]"

section \<open>Properties of computePatchVariance\<close>

lemma borderInterpolate_range:
  assumes "0 < len" "- 1 \<le> p" "p \<le> len"
  shows "0 \<le> borderInterpolate p len \<and> borderInterpolate p len < len"
  using assms by (auto simp: borderInterpolate_def)

lemma rows_replicate [simp]: "rows (replicate h r) = int h"
  by (simp add: rows_def)

lemma cols_replicate [simp]: "0 < h \<Longrightarrow> cols (replicate h (replicate w v)) = int w"
  by (cases h) (simp_all add: cols_def)

lemma elemAt_replicate:
  assumes "0 \<le> y" "y < int h" "0 \<le> x" "x < int w"
  shows "elemAt (replicate h (replicate w v)) y x = v"
  using assms by (simp add: elemAt_def)

lemma laplacianAt_uniform:
  assumes "0 \<le> y" "y < int h" "0 \<le> x" "x < int w"
  shows "laplacianAt (replicate h (replicate w v)) scale y x = 0"
proof -
  have h: "0 < h" and w: "0 < w" using assms by auto
  have e: "elemAt (replicate h (replicate w v))
             (borderInterpolate (y + dy) (int h)) (borderInterpolate (x + dx) (int w)) = v"
    if "- 1 \<le> dy" "dy \<le> 1" "- 1 \<le> dx" "dx \<le> 1" for dy dx
  proof (rule elemAt_replicate)
    have "0 \<le> borderInterpolate (y + dy) (int h) \<and> borderInterpolate (y + dy) (int h) < int h"
      using that assms by (intro borderInterpolate_range) auto
    moreover
    have "0 \<le> borderInterpolate (x + dx) (int w) \<and> borderInterpolate (x + dx) (int w) < int w"
      using that assms by (intro borderInterpolate_range) auto
    ultimately show "0 \<le> borderInterpolate (y + dy) (int h)"
      "borderInterpolate (y + dy) (int h) < int h"
      "0 \<le> borderInterpolate (x + dx) (int w)"
      "borderInterpolate (x + dx) (int w) < int w" by auto
  qed
  note es = e [of "- 1" "- 1"] e [of "- 1" 0] e [of "- 1" 1] e [of 0 "- 1"] e [of 0 0]
    e [of 0 1] e [of 1 "- 1"] e [of 1 0] e [of 1 1]
  show ?thesis
    using h w es by (simp add: laplacianAt_def laplacianKernel_def)
qed

lemma Laplacian_uniform:
  assumes "0 < h" "0 < w"
  shows "Laplacian (replicate h (replicate w v)) scale = replicate h (replicate w 0)"
proof -
  let ?row = "\<lambda>y. map (\<lambda>x. laplacianAt (replicate h (replicate w v)) scale (int y) (int x)) [0 ..< w]"
  have row: "?row y = replicate w 0" if "y < h" for y
  proof -
    have "?row y = map (\<lambda>_. 0) [0 ..< w]"
      using that by (intro map_cong refl) (simp add: laplacianAt_uniform)
    then show ?thesis by (simp add: map_replicate_const)
  qed
  have "map ?row [0 ..< h] = map (\<lambda>_. replicate w 0) [0 ..< h]"
    by (intro map_cong refl) (simp add: row)
  then have "map ?row [0 ..< h] = replicate h (replicate w 0)"
    by (simp add: map_replicate_const)
  then show ?thesis using assms by (simp add: Laplacian_def)
qed

lemma sum_mat_zero: "sum_mat (pow_mat (replicate h (replicate w 0)) 2) = 0"
  by (simp add: sum_mat_def pow_mat_def sum_list_replicate)

lemma computePatchVariance_replicate:
  assumes "0 < h" "0 < w"
  shows "computePatchVariance (replicate h (replicate w p)) = Inr 0"
  using assms
  by (simp add: computePatchVariance_def cvtColor_split_V_def empty_mat_def
      Laplacian_uniform sum_mat_zero)





section \<open>Properties of selectBestPatch\<close>

lemma selectLoop_Cons:
  "selectLoop img center radius (d # ds) st =
     (if outOfBounds img center radius d then selectLoop img center radius ds st
      else case candidate img center radius d of
             Inl e \<Rightarrow> Inl e
           | Inr c \<Rightarrow> selectLoop img center radius ds (pick st c))"
  by (cases st) (auto simp: candidate_def split: sum.splits)

lemma selectLoop_collect:
  "selectLoop img center radius ds st =
     (case collect (map (candidate img center radius)
                        (filter (\<lambda>d. \<not> outOfBounds img center radius d) ds)) of
        Inl e \<Rightarrow> Inl e
      | Inr cs \<Rightarrow> Inr (foldl pick st cs))"
proof (induction ds arbitrary: st)
  case Nil
  show ?case by simp
next
  case (Cons d ds)
  show ?case
    by (simp only: selectLoop_Cons Cons.IH) (simp split: sum.splits)
qed

lemma selectLoop_filter:
  "selectLoop img center radius (filter (\<lambda>d. \<not> outOfBounds img center radius d) ds) st =
   selectLoop img center radius ds st"
  by (simp add: selectLoop_collect [of _ _ _ ds] selectLoop_collect [of _ _ _ "filter _ ds"])


lemma foldl_pick_cases:
  "(foldl pick st cs = st \<and> (\<forall>c \<in> set cs. \<not> less_double (fst c) (fst st))) \<or>
   (\<exists>k < length cs. foldl pick st cs = (Fin (fst (cs ! k)), snd (cs ! k)) \<and>
        less_double (fst (cs ! k)) (fst st) \<and>
        (\<forall>j < length cs. fst (cs ! k) \<le> fst (cs ! j)) \<and>
        (\<forall>j < k. fst (cs ! k) < fst (cs ! j)))"
proof (induction cs rule: rev_induct)
  case Nil
  show ?case by simp
next
  case (snoc c cs)
  obtain v p where c: "c = (v, p)" by (cases c)
  obtain mv bp where st: "st = (mv, bp)" by (cases st)
  from snoc.IH show ?case
  proof (elim disjE conjE exE)
    assume same: "foldl pick st cs = st" and none: "\<forall>c \<in> set cs. \<not> less_double (fst c) (fst st)"
    show ?thesis
    proof (cases "less_double v mv")
      case True
      have lt: "v < fst (cs ! j)" if "j < length cs" for j
      proof -
        have "\<not> less_double (fst (cs ! j)) mv" using none that st by auto
        with True show ?thesis by (cases mv) auto
      qed
      have "foldl pick st (cs @ [c]) = (Fin v, p)"
        using True same c st by (simp add: clone_def)
      then have "length cs < length (cs @ [c]) \<and>
          foldl pick st (cs @ [c]) = (Fin (fst ((cs @ [c]) ! length cs)), snd ((cs @ [c]) ! length cs)) \<and>
          less_double (fst ((cs @ [c]) ! length cs)) (fst st) \<and>
          (\<forall>j < length (cs @ [c]). fst ((cs @ [c]) ! length cs) \<le> fst ((cs @ [c]) ! j)) \<and>
          (\<forall>j < length cs. fst ((cs @ [c]) ! length cs) < fst ((cs @ [c]) ! j))"
        using True c st lt by (auto simp: nth_append less_Suc_eq dest: less_imp_le)
      then show ?thesis by blast
    next
      case False
      then have "foldl pick st (cs @ [c]) = st" using same c st by simp
      moreover have "\<forall>c' \<in> set (cs @ [c]). \<not> less_double (fst c') (fst st)"
        using none False c st by auto
      ultimately show ?thesis by blast
    qed
  next
    fix k
    assume k: "k < length cs"
      and eq: "foldl pick st cs = (Fin (fst (cs ! k)), snd (cs ! k))"
      and lt: "less_double (fst (cs ! k)) (fst st)"
      and le: "\<forall>j < length cs. fst (cs ! k) \<le> fst (cs ! j)"
      and first: "\<forall>j < k. fst (cs ! k) < fst (cs ! j)"
    show ?thesis
    proof (cases "v < fst (cs ! k)")
      case True
      have vlt: "less_double v (fst st)"
        using True lt st by (cases mv) auto
      have "foldl pick st (cs @ [c]) = (Fin v, p)"
        using True eq c by (simp add: clone_def)
      then have "length cs < length (cs @ [c]) \<and>
          foldl pick st (cs @ [c]) = (Fin (fst ((cs @ [c]) ! length cs)), snd ((cs @ [c]) ! length cs)) \<and>
          less_double (fst ((cs @ [c]) ! length cs)) (fst st) \<and>
          (\<forall>j < length (cs @ [c]). fst ((cs @ [c]) ! length cs) \<le> fst ((cs @ [c]) ! j)) \<and>
          (\<forall>j < length cs. fst ((cs @ [c]) ! length cs) < fst ((cs @ [c]) ! j))"
        using True c le vlt by (auto simp: nth_append less_Suc_eq dest: less_imp_le)
      then show ?thesis by blast
    next
      case False
      have "foldl pick st (cs @ [c]) = (Fin (fst (cs ! k)), snd (cs ! k))"
        using False eq c by simp
      then have "k < length (cs @ [c]) \<and>
          foldl pick st (cs @ [c]) = (Fin (fst ((cs @ [c]) ! k)), snd ((cs @ [c]) ! k)) \<and>
          less_double (fst ((cs @ [c]) ! k)) (fst st) \<and>
          (\<forall>j < length (cs @ [c]). fst ((cs @ [c]) ! k) \<le> fst ((cs @ [c]) ! j)) \<and>
          (\<forall>j < k. fst ((cs @ [c]) ! k) < fst ((cs @ [c]) ! j))"
        using False k lt le first c by (auto simp: nth_append less_Suc_eq)
      then show ?thesis by blast
    qed
  qed
qed


lemma candidate_nonempty:
  assumes "candidate img center radius d = Inr (v, p)"
  shows "\<not> empty_mat p"
  using assms
  by (auto simp: candidate_def computePatchVariance_def cvtColor_split_V_def
      split: sum.splits if_splits)

lemma submat_ok:
  assumes "rectangular m" "0 \<le> y0" "y0 < y1" "y1 \<le> rows m" "0 \<le> x0" "x0 < x1" "x1 \<le> cols m"
  shows "\<exists>p. submat m (y0, y1) (x0, x1) = Inr p \<and> \<not> empty_mat p"
proof -
  let ?rs = "take (nat (y1 - y0)) (drop (nat y0) m)"
  let ?p = "map (\<lambda>r. take (nat (x1 - x0)) (drop (nat x0) r)) ?rs"
  have len: "length ?rs = nat (y1 - y0)"
    using assms by (simp add: rows_def)
  then obtain r rs where rs: "?rs = r # rs"
    using assms by (cases ?rs) auto
  have "r \<in> set m"
    using rs by (metis in_set_dropD in_set_takeD list.set_intros(1))
  then have "int (length r) = cols m"
    using assms(1) by (simp add: rectangular_def list_all_iff)
  then have "cols ?p = x1 - x0"
    using rs assms by (simp add: cols_def)
  moreover have "rows ?p = y1 - y0"
    using len assms by (simp add: rows_def)
  ultimately have "\<not> empty_mat ?p"
    using assms by (simp add: empty_mat_def)
  moreover have "submat m (y0, y1) (x0, x1) = Inr ?p"
    using assms by (simp add: submat_def)
  ultimately show ?thesis by blast
qed

lemma candidate_ok:
  assumes "rectangular img" "0 \<le> radius" "\<not> outOfBounds img center radius d"
  shows "\<exists>c. candidate img center radius d = Inr c"
proof -
  have "\<exists>p. submat img (bound_y0 center radius d, bound_y1 center radius d)
                       (bound_x0 center radius d, bound_x1 center radius d) = Inr p \<and> \<not> empty_mat p"
    using assms
    by (intro submat_ok)
      (auto simp: outOfBounds_def bound_x0_def bound_x1_def bound_y0_def bound_y1_def)
  then show ?thesis
    by (auto simp: candidate_def computePatchVariance_def cvtColor_split_V_def Let_def)
qed

lemma map_Inr_ex:
  assumes "\<forall>x \<in> set xs. \<exists>y. f x = Inr y"
  shows "\<exists>ys. map f xs = map Inr ys"
  using assms
proof (induction xs)
  case Nil
  show ?case by simp
next
  case (Cons x xs)
  then obtain y ys where "f x = Inr y" "map f xs = map Inr ys" by auto
  then have "map f (x # xs) = map Inr (y # ys)" by simp
  then show ?case by blast
qed

lemma collect_map_Inr [simp]: "collect (map Inr ys) = Inr ys"
  by (induction ys) auto

lemma collect_Inr_iff: "collect xs = Inr ys \<longleftrightarrow> xs = map Inr ys"
  by (induction xs arbitrary: ys rule: collect.induct) (auto split: sum.splits)

lemma foldl_pick_Infinity:
  assumes "cs \<noteq> []"
  shows "\<exists>k < length cs. foldl pick (Infinity, []) cs = (Fin (fst (cs ! k)), snd (cs ! k)) \<and>
           (\<forall>j < length cs. fst (cs ! k) \<le> fst (cs ! j)) \<and>
           (\<forall>j < k. fst (cs ! k) < fst (cs ! j))"
proof -
  from assms obtain c0 where "c0 \<in> set cs" by (cases cs) auto
  moreover have "less_double (fst c0) (fst (Infinity, []))" by simp
  ultimately have "\<not> (\<forall>c \<in> set cs. \<not> less_double (fst c) (fst (Infinity, [])))" by blast
  with foldl_pick_cases [of "(Infinity, [])" cs] show ?thesis by blast
qed

lemma firstMinimal_foldl_pick:
  "foldl pick (Infinity, []) cs =
     (case firstMinimal cs of None \<Rightarrow> (Infinity, []) | Some c \<Rightarrow> (Fin (fst c), snd c))"
proof (cases cs)
  case Nil
  then show ?thesis by (simp add: firstMinimal_def)
next
  case (Cons c cs')
  then have "cs \<noteq> []" by simp
  from foldl_pick_Infinity [OF this]
  obtain k where k: "k < length cs"
    "foldl pick (Infinity, []) cs = (Fin (fst (cs ! k)), snd (cs ! k))"
    "\<forall>j < length cs. fst (cs ! k) \<le> fst (cs ! j)" "\<forall>j < k. fst (cs ! k) < fst (cs ! j)"
    by blast
  have "firstMinimal cs = Some (cs ! k)"
    unfolding firstMinimal_def find_Some_iff
  proof (intro exI [of _ k] conjI allI impI)
    show "k < length cs" by (rule k)
    show "list_all (\<lambda>c'. fst (cs ! k) \<le> fst c') cs"
      using k(3) by (auto simp: list_all_length)
    show "cs ! k = cs ! k" ..
    fix j assume "j < k"
    then have "fst (cs ! k) < fst (cs ! j)" using k(4) by blast
    then have "\<not> fst (cs ! j) \<le> fst (cs ! k)" by simp
    then show "\<not> list_all (\<lambda>c'. fst (cs ! j) \<le> fst c') cs"
      using k(1) by (auto simp: list_all_length)
  qed
  then show ?thesis using k(2) by simp
qed

lemma selectBestPatch_selectInOrder:
  "selectBestPatch img center radius = selectInOrder kDirs img center radius"
  by (simp add: selectBestPatch_def selectInOrder_def selectLoop_collect firstMinimal_foldl_pick
      split: sum.splits option.splits)

lemma collect_Inl:
  assumes "collect xs = Inl e"
  shows "Inl e \<in> set xs"
  using assms by (induction xs rule: collect.induct) (auto split: sum.splits)

lemma candidate_not_BadRange:
  assumes "0 \<le> radius" "\<not> outOfBounds img center radius d"
  shows "candidate img center radius d \<noteq> Inl BadRange"
proof -
  have "\<exists>p. submat img (bound_y0 center radius d, bound_y1 center radius d)
                       (bound_x0 center radius d, bound_x1 center radius d) = Inr p"
    using assms
    by (simp add: submat_def outOfBounds_def bound_x0_def bound_x1_def bound_y0_def bound_y1_def)
  then show ?thesis
    by (auto simp: candidate_def computePatchVariance_def cvtColor_split_V_def Let_def
        split: sum.splits if_splits)
qed

lemma selectBestPatch_no_BadRange:
  assumes "0 \<le> radius"
  shows "selectBestPatch img center radius \<noteq> Inl BadRange"
proof
  assume "selectBestPatch img center radius = Inl BadRange"
  then have "collect (map (candidate img center radius)
      (filter (\<lambda>d. \<not> outOfBounds img center radius d) kDirs)) = Inl BadRange"
    by (simp add: selectBestPatch_def selectLoop_collect split: sum.splits)
  then have "Inl BadRange \<in> set (map (candidate img center radius)
      (filter (\<lambda>d. \<not> outOfBounds img center radius d) kDirs))"
    by (rule collect_Inl)
  then obtain d where "\<not> outOfBounds img center radius d" "candidate img center radius d = Inl BadRange"
    by auto
  then show False using candidate_not_BadRange [OF assms] by blast
qed

lemma selectBestPatch_total:
  assumes "rectangular img" "0 \<le> radius"
  shows "\<exists>p. selectBestPatch img center radius = Inr p"
proof -
  have "\<forall>d \<in> set (filter (\<lambda>d. \<not> outOfBounds img center radius d) kDirs).
          \<exists>c. candidate img center radius d = Inr c"
    using assms candidate_ok by auto
  then obtain cs where "map (candidate img center radius)
      (filter (\<lambda>d. \<not> outOfBounds img center radius d) kDirs) = map Inr cs"
    using map_Inr_ex by blast
  then show ?thesis
    by (simp add: selectBestPatch_def selectLoop_collect)
qed

lemma selectBestPatch_collect:
  "selectBestPatch img center radius =
     (case collect (map (candidate img center radius)
                        (filter (\<lambda>d. \<not> outOfBounds img center radius d) kDirs)) of
        Inl e \<Rightarrow> Inl e
      | Inr cs \<Rightarrow> Inr (snd (foldl pick (Infinity, []) cs)))"
  by (simp add: selectBestPatch_def selectLoop_collect split: sum.splits)

lemma selectBestPatch_empty_iff:
  "(\<exists>p. selectBestPatch img center radius = Inr p \<and> empty_mat p) \<longleftrightarrow>
   noneInBounds img center radius"
proof
  assume "noneInBounds img center radius"
  then have "filter (\<lambda>d. \<not> outOfBounds img center radius d) kDirs = []"
    by (simp add: noneInBounds_def list_all_iff)
  then have "selectBestPatch img center radius = Inr []"
    by (simp add: selectBestPatch_collect)
  then show "\<exists>p. selectBestPatch img center radius = Inr p \<and> empty_mat p"
    by (simp add: empty_mat_def rows_def)
next
  assume "\<exists>p. selectBestPatch img center radius = Inr p \<and> empty_mat p"
  then obtain p where p: "selectBestPatch img center radius = Inr p" "empty_mat p" by blast
  define ds where "ds = filter (\<lambda>d. \<not> outOfBounds img center radius d) kDirs"
  have sb: "selectBestPatch img center radius =
     (case collect (map (candidate img center radius) ds) of
        Inl e \<Rightarrow> Inl e
      | Inr cs \<Rightarrow> Inr (snd (foldl pick (Infinity, []) cs)))"
    unfolding ds_def by (rule selectBestPatch_collect)
  obtain cs where cs: "collect (map (candidate img center radius) ds) = Inr cs"
    using p(1) sb by (cases "collect (map (candidate img center radius) ds)") simp_all
  have res: "p = snd (foldl pick (Infinity, []) cs)"
    using p(1) sb cs by simp
  from cs have m: "map (candidate img center radius) ds = map Inr cs"
    by (simp add: collect_Inr_iff)
  have len: "length ds = length cs"
    using arg_cong [OF m, of length] by simp
  have "cs = []"
  proof (rule ccontr)
    assume ne: "cs \<noteq> []"
    from foldl_pick_Infinity [OF ne] obtain k where k: "k < length cs"
      "foldl pick (Infinity, []) cs = (Fin (fst (cs ! k)), snd (cs ! k))" by blast
    have "map (candidate img center radius) ds ! k = map Inr cs ! k"
      by (simp only: m)
    then have "candidate img center radius (ds ! k) = Inr (fst (cs ! k), snd (cs ! k))"
      using k(1) len by simp
    then have "\<not> empty_mat (snd (cs ! k))"
      by (rule candidate_nonempty)
    with res k(2) p(2) show False by simp
  qed
  with len have "ds = []" by simp
  then show "noneInBounds img center radius"
    unfolding ds_def by (simp add: noneInBounds_def list_all_iff filter_empty_conv)
qed

text \<open>
  C1, as the code has it. When the image is a proper matrix, the radius is not negative
  and all eight candidates pass the bounds check, every candidate is extracted and scored,
  and \<open>selectBestPatch\<close> returns the patch of a candidate \<open>k\<close> whose score is the minimum
  of the eight and strictly below the score of every candidate before it in the order of
  \<open>kDirs\<close>: E, SE, S, SW, W, NW, N, NE.
\<close>

theorem selectBestPatch_first_minimum:
  assumes "rectangular img" "0 \<le> radius" "allInBounds img center radius"
  shows "\<exists>cs k. map (candidate img center radius) kDirs = map Inr cs \<and> k < length cs \<and>
           selectBestPatch img center radius = Inr (snd (cs ! k)) \<and>
           (\<forall>j < length cs. fst (cs ! k) \<le> fst (cs ! j)) \<and>
           (\<forall>j < k. fst (cs ! k) < fst (cs ! j))"
proof -
  have inb: "\<forall>d \<in> set kDirs. \<not> outOfBounds img center radius d"
    using assms(3) by (simp add: allInBounds_def list_all_iff)
  then have "\<forall>d \<in> set kDirs. \<exists>c. candidate img center radius d = Inr c"
    using assms(1,2) candidate_ok by blast
  then obtain cs where cs: "map (candidate img center radius) kDirs = map Inr cs"
    using map_Inr_ex by blast
  then have "length cs = length kDirs" by (metis length_map)
  then have ne: "cs \<noteq> []" by (auto simp: kDirs_def)
  have flt: "filter (\<lambda>d. \<not> outOfBounds img center radius d) kDirs = kDirs"
    using inb by simp
  have loop: "selectLoop img center radius kDirs (Infinity, []) = Inr (foldl pick (Infinity, []) cs)"
    by (simp add: selectLoop_collect flt cs)
  from foldl_pick_Infinity [OF ne]
  obtain k where "k < length cs"
    "foldl pick (Infinity, []) cs = (Fin (fst (cs ! k)), snd (cs ! k))"
    "\<forall>j < length cs. fst (cs ! k) \<le> fst (cs ! j)" "\<forall>j < k. fst (cs ! k) < fst (cs ! j)"
    by blast
  then show ?thesis
    using cs loop by (auto simp: selectBestPatch_def)
qed

theorem selectBestPatch_first_minimum_witness:
  "rectangular exampleImage \<and> allInBounds exampleImage (3, 3) 1 \<and>
   (\<exists>cs k. map (candidate exampleImage (3, 3) 1) kDirs = map Inr cs \<and> k < length cs \<and>
      selectBestPatch exampleImage (3, 3) 1 = Inr (snd (cs ! k)) \<and>
      (\<forall>j < length cs. fst (cs ! k) \<le> fst (cs ! j)) \<and>
      (\<forall>j < k. fst (cs ! k) < fst (cs ! j)))"
proof -
  have r: "rectangular exampleImage" by code_simp
  have a: "allInBounds exampleImage (3, 3) 1" by code_simp
  have z: "(0::int) \<le> 1" by simp
  show ?thesis
    by (intro conjI r a selectBestPatch_first_minimum [OF r z a])
qed

text \<open>
  C1, as the specification states it, names the order N, NE, E, SE, S, SW, W, NW. On
  \<open>exampleImage\<close> with centre \<open>(3, 3)\<close> and radius 1 the N, NE, NW and SW patches all score
  zero; the specification's order selects the black N patch, the code returns the gray SW
  patch, which it meets before N.
\<close>

theorem selectBestPatch_spec_order_counterexample:
  "allInBounds exampleImage (3, 3) 1 \<and>
   selectBestPatch exampleImage (3, 3) 1 = Inr (replicate 3 (replicate 3 (gray 8))) \<and>
   selectInOrder specOrder exampleImage (3, 3) 1 = Inr (replicate 3 (replicate 3 (gray 0))) \<and>
   selectBestPatch exampleImage (3, 3) 1 \<noteq> selectInOrder specOrder exampleImage (3, 3) 1"
proof -
  have a: "allInBounds exampleImage (3, 3) 1" by code_simp
  have b: "selectBestPatch exampleImage (3, 3) 1 = Inr (replicate 3 (replicate 3 (gray 8)))"
    by code_simp
  have c: "selectInOrder specOrder exampleImage (3, 3) 1 = Inr (replicate 3 (replicate 3 (gray 0)))"
    by code_simp
  have d: "replicate 3 (replicate 3 (gray 8)) \<noteq> replicate 3 (replicate 3 (gray 0))"
    by code_simp
  show ?thesis using a b c d by simp
qed

text \<open>
  C2. \<open>selectBestPatch\<close> gives the result of its loop run over the in-bounds directions
  alone, so a candidate that fails the bounds check is never extracted or scored; and it
  returns an empty patch exactly when none of the eight candidates is in bounds.
\<close>

theorem selectBestPatch_in_bounds_only:
  "selectBestPatch img center radius =
     (case selectLoop img center radius
             (filter (\<lambda>d. \<not> outOfBounds img center radius d) kDirs) (Infinity, []) of
        Inl e \<Rightarrow> Inl e
      | Inr st \<Rightarrow> Inr (snd st)) \<and>
   ((\<exists>p. selectBestPatch img center radius = Inr p \<and> empty_mat p) \<longleftrightarrow>
      noneInBounds img center radius)"
proof (intro conjI)
  show "selectBestPatch img center radius =
     (case selectLoop img center radius
             (filter (\<lambda>d. \<not> outOfBounds img center radius d) kDirs) (Infinity, []) of
        Inl e \<Rightarrow> Inl e
      | Inr st \<Rightarrow> Inr (snd st))"
    by (simp only: selectLoop_filter selectBestPatch_def)
  show "(\<exists>p. selectBestPatch img center radius = Inr p \<and> empty_mat p) \<longleftrightarrow>
      noneInBounds img center radius"
    by (rule selectBestPatch_empty_iff)
qed

theorem selectBestPatch_in_bounds_only_witness:
  "noneInBounds exampleImage (0, 0) 5 \<and>
   (\<exists>p. selectBestPatch exampleImage (0, 0) 5 = Inr p \<and> empty_mat p) \<and>
   \<not> noneInBounds exampleImage (0, 0) 1 \<and>
   \<not> (\<exists>p. selectBestPatch exampleImage (0, 0) 1 = Inr p \<and> empty_mat p)"
proof -
  have a: "noneInBounds exampleImage (0, 0) 5" by code_simp
  have b: "\<not> noneInBounds exampleImage (0, 0) 1" by code_simp
  show ?thesis
    using a b selectBestPatch_in_bounds_only [of exampleImage "(0, 0)" 5]
      selectBestPatch_in_bounds_only [of exampleImage "(0, 0)" 1]
    by blast
qed

lemma submat_elemAt:
  assumes "rectangular m" "submat m (y0, y1) (x0, x1) = Inr p"
    "0 \<le> i" "i < rows p" "0 \<le> j" "j < cols p"
  shows "elemAt p i j = elemAt m (y0 + i) (x0 + j) \<and> y0 + i < rows m \<and> x0 + j < cols m"
proof -
  have b: "0 \<le> y0" "y0 \<le> y1" "y1 \<le> rows m" "0 \<le> x0" "x0 \<le> x1" "x1 \<le> cols m"
    and p: "p = map (\<lambda>r. take (nat (x1 - x0)) (drop (nat x0) r))
                    (take (nat (y1 - y0)) (drop (nat y0) m))"
    using assms(2) by (auto simp: submat_def Let_def split: if_splits)
  have rp: "rows p = y1 - y0"
    using b by (simp add: p rows_def)
  have i: "nat i < nat (y1 - y0)" "nat y0 + nat i < length m"
    using assms(3,4) rp b by (auto simp: rows_def)
  have len: "int (length r) = cols m" if "r \<in> set m" for r
    using assms(1) that by (simp add: rectangular_def list_all_iff)
  have "p \<noteq> []" using assms(3,4) by (auto simp: rows_def)
  then have "hd p \<in> set p" by simp
  then obtain r0 where r0: "r0 \<in> set m" "hd p = take (nat (x1 - x0)) (drop (nat x0) r0)"
    unfolding p by (auto dest: in_set_takeD in_set_dropD)
  have "cols p = int (length (hd p))"
    using \<open>p \<noteq> []\<close> by (cases p) (simp_all add: cols_def)
  also have "\<dots> = x1 - x0"
    using r0 len [OF r0(1)] b by simp
  finally have cp: "cols p = x1 - x0" .
  have "take (nat (y1 - y0)) (drop (nat y0) m) ! nat i = drop (nat y0) m ! nat i"
    by (rule nth_take [OF i(1)])
  also have "\<dots> = m ! (nat y0 + nat i)"
    using i(2) by simp
  finally have ri: "take (nat (y1 - y0)) (drop (nat y0) m) ! nat i = m ! (nat y0 + nat i)" .
  have "nat i < length (take (nat (y1 - y0)) (drop (nat y0) m))"
    using i by simp
  then have row: "p ! nat i = take (nat (x1 - x0)) (drop (nat x0) (m ! (nat y0 + nat i)))"
    unfolding p by (simp only: nth_map ri)
  have "m ! (nat y0 + nat i) \<in> set m" using i by simp
  then have lr: "int (length (m ! (nat y0 + nat i))) = cols m" by (rule len)
  have j: "nat j < nat (x1 - x0)" "nat x0 + nat j < length (m ! (nat y0 + nat i))"
    using assms(5,6) cp b lr by auto
  have "take (nat (x1 - x0)) (drop (nat x0) (m ! (nat y0 + nat i))) ! nat j
          = drop (nat x0) (m ! (nat y0 + nat i)) ! nat j"
    by (rule nth_take [OF j(1)])
  also have "\<dots> = m ! (nat y0 + nat i) ! (nat x0 + nat j)"
    using j(2) by simp
  finally have "elemAt p i j = m ! (nat y0 + nat i) ! (nat x0 + nat j)"
    by (simp add: elemAt_def row)
  moreover have "nat (y0 + i) = nat y0 + nat i" "nat (x0 + j) = nat x0 + nat j"
    using b assms(3,5) by (simp_all add: nat_add_distrib)
  ultimately have "elemAt p i j = elemAt m (y0 + i) (x0 + j)"
    by (simp add: elemAt_def)
  moreover have "y0 + i < rows m" using assms(4) rp b by simp
  moreover have "x0 + j < cols m" using assms(6) cp b by simp
  ultimately show ?thesis by simp
qed

text \<open>
  C9. A candidate that passes the bounds check has \<open>0 \<le> x0\<close>, \<open>0 \<le> y0\<close>, \<open>x1 \<le> cols\<close> and
  \<open>y1 \<le> rows\<close>; every position of its square is a position of the image, and every pixel
  of the extracted patch is the image pixel at such a position. For a radius that is not
  negative the range assertion of the sub-matrix operator never fires.
\<close>

theorem selectBestPatch_reads_in_bounds:
  "(\<not> outOfBounds img center radius d \<longrightarrow>
      0 \<le> bound_x0 center radius d \<and> 0 \<le> bound_y0 center radius d \<and>
      bound_x1 center radius d \<le> cols img \<and> bound_y1 center radius d \<le> rows img \<and>
      (\<forall>y x. bound_y0 center radius d \<le> y \<and> y < bound_y1 center radius d \<and>
             bound_x0 center radius d \<le> x \<and> x < bound_x1 center radius d \<longrightarrow>
             0 \<le> y \<and> y < rows img \<and> 0 \<le> x \<and> x < cols img) \<and>
      (\<forall>patch i j. rectangular img \<and>
             submat img (bound_y0 center radius d, bound_y1 center radius d)
                        (bound_x0 center radius d, bound_x1 center radius d) = Inr patch \<and>
             0 \<le> i \<and> i < rows patch \<and> 0 \<le> j \<and> j < cols patch \<longrightarrow>
             elemAt patch i j = elemAt img (bound_y0 center radius d + i) (bound_x0 center radius d + j) \<and>
             0 \<le> bound_y0 center radius d + i \<and> bound_y0 center radius d + i < rows img \<and>
             0 \<le> bound_x0 center radius d + j \<and> bound_x0 center radius d + j < cols img)) \<and>
   (0 \<le> radius \<longrightarrow> selectBestPatch img center radius \<noteq> Inl BadRange)"
proof (intro conjI impI allI)
  assume inb: "\<not> outOfBounds img center radius d"
  then show b: "0 \<le> bound_x0 center radius d" "0 \<le> bound_y0 center radius d"
    "bound_x1 center radius d \<le> cols img" "bound_y1 center radius d \<le> rows img"
    by (simp_all add: outOfBounds_def)
  {
    fix y x
    assume "bound_y0 center radius d \<le> y \<and> y < bound_y1 center radius d \<and>
             bound_x0 center radius d \<le> x \<and> x < bound_x1 center radius d"
    with b show "0 \<le> y" "y < rows img" "0 \<le> x" "x < cols img" by auto
  }
  {
    fix patch i j
    assume a: "rectangular img \<and>
             submat img (bound_y0 center radius d, bound_y1 center radius d)
                        (bound_x0 center radius d, bound_x1 center radius d) = Inr patch \<and>
             0 \<le> i \<and> i < rows patch \<and> 0 \<le> j \<and> j < cols patch"
    then have e: "elemAt patch i j = elemAt img (bound_y0 center radius d + i) (bound_x0 center radius d + j) \<and>
        bound_y0 center radius d + i < rows img \<and> bound_x0 center radius d + j < cols img"
      using submat_elemAt [of img "bound_y0 center radius d" "bound_y1 center radius d"
          "bound_x0 center radius d" "bound_x1 center radius d" patch i j]
      by blast
    then show "elemAt patch i j = elemAt img (bound_y0 center radius d + i) (bound_x0 center radius d + j)"
      "bound_y0 center radius d + i < rows img" "bound_x0 center radius d + j < cols img"
      by simp_all
    from a b show "0 \<le> bound_y0 center radius d + i" "0 \<le> bound_x0 center radius d + j"
      by simp_all
  }
next
  assume "0 \<le> radius"
  then show "selectBestPatch img center radius \<noteq> Inl BadRange"
    by (rule selectBestPatch_no_BadRange)
qed

theorem selectBestPatch_reads_in_bounds_witness:
  "\<not> outOfBounds exampleImage (3, 3) 1 (1, 0) \<and>
   bound_x0 (3, 3) 1 (1, 0) = 4 \<and> bound_x1 (3, 3) 1 (1, 0) = 7 \<and> cols exampleImage = 7 \<and>
   bound_y0 (3, 3) 1 (1, 0) = 2 \<and> bound_y1 (3, 3) 1 (1, 0) = 5 \<and> rows exampleImage = 7 \<and>
   selectBestPatch exampleImage (3, 3) 1 \<noteq> Inl BadRange"
proof -
  have a: "\<not> outOfBounds exampleImage (3, 3) 1 (1, 0)" by code_simp
  have b: "bound_x0 (3, 3) 1 (1, 0) = 4" "bound_x1 (3, 3) 1 (1, 0) = 7" "cols exampleImage = 7"
    "bound_y0 (3, 3) 1 (1, 0) = 2" "bound_y1 (3, 3) 1 (1, 0) = 5" "rows exampleImage = 7"
    by code_simp+
  show ?thesis
    using a b selectBestPatch_reads_in_bounds [of exampleImage "(3, 3)" 1 "(1, 0)"] by simp
qed

section \<open>The candidate centres\<close>







section \<open>Properties of onMouse and runBlemishRemoval\<close>

lemma dispatch_append:
  "dispatch cv (ms1 @ ms2) g =
     (case dispatch cv ms1 g of Inl e \<Rightarrow> Inl e | Inr g' \<Rightarrow> dispatch cv ms2 g')"
  by (induction cv ms1 g rule: dispatch.induct) (auto split: sum.splits)

lemma onMouse_no_donor:
  assumes "selectBestPatch g (x, y) kDefaultRad = Inr patch" "empty_mat patch"
  shows "onMouse cv event x y g = Inr g"
  using assms by (simp add: onMouse_def)

lemma eventLoop_append:
  "eventLoop cv original (ts1 @ ts2) g =
     (case eventLoop cv original ts1 g of
        Inl e \<Rightarrow> Inl e
      | Inr (exited, g') \<Rightarrow> if exited then Inr (True, g') else eventLoop cv original ts2 g')"
  by (induction cv original ts1 g rule: eventLoop.induct) (auto split: sum.splits simp: Let_def)

lemma submat_replicate:
  assumes "0 \<le> y0" "y0 \<le> y1" "y1 \<le> int h" "0 \<le> x0" "x0 \<le> x1" "x1 \<le> int w" "0 < h"
  shows "submat (replicate h (replicate w p)) (y0, y1) (x0, x1) =
           Inr (replicate (nat (y1 - y0)) (replicate (nat (x1 - x0)) p))"
proof -
  have "min (h - nat y0) (nat (y1 - y0)) = nat (y1 - y0)"
    "min (w - nat x0) (nat (x1 - x0)) = nat (x1 - x0)"
    using assms by auto
  then show ?thesis
    using assms by (simp add: submat_def min.commute)
qed

lemma candidate_uniform:
  assumes "0 \<le> radius" "0 < h" "\<not> outOfBounds (replicate h (replicate w p)) center radius d"
  shows "candidate (replicate h (replicate w p)) center radius d =
           Inr (0, replicate (nat (2 * radius + 1)) (replicate (nat (2 * radius + 1)) p))"
proof -
  have b: "0 \<le> bound_y0 center radius d" "bound_y1 center radius d \<le> int h"
    "0 \<le> bound_x0 center radius d" "bound_x1 center radius d \<le> int w"
    using assms by (simp_all add: outOfBounds_def)
  have d: "bound_y1 center radius d - bound_y0 center radius d = 2 * radius + 1"
    "bound_x1 center radius d - bound_x0 center radius d = 2 * radius + 1"
    by (simp_all add: bound_y1_def bound_y0_def bound_x1_def bound_x0_def)
  have "submat (replicate h (replicate w p))
          (bound_y0 center radius d, bound_y1 center radius d)
          (bound_x0 center radius d, bound_x1 center radius d) =
        Inr (replicate (nat (2 * radius + 1)) (replicate (nat (2 * radius + 1)) p))"
    using submat_replicate [of "bound_y0 center radius d" "bound_y1 center radius d" h
        "bound_x0 center radius d" "bound_x1 center radius d" w p] b d assms(1,2)
    by simp
  moreover have "computePatchVariance
      (replicate (nat (2 * radius + 1)) (replicate (nat (2 * radius + 1)) p)) = Inr 0"
    using assms(1) by (intro computePatchVariance_replicate) simp_all
  ultimately show ?thesis by (simp add: candidate_def)
qed

lemma selectBestPatch_uniform:
  assumes "0 \<le> radius" "0 < h" "\<not> noneInBounds (replicate h (replicate w p)) center radius"
  shows "selectBestPatch (replicate h (replicate w p)) center radius =
           Inr (replicate (nat (2 * radius + 1)) (replicate (nat (2 * radius + 1)) p))"
proof -
  let ?U = "replicate h (replicate w p)"
  let ?P = "replicate (nat (2 * radius + 1)) (replicate (nat (2 * radius + 1)) p)"
  define ds where "ds = filter (\<lambda>d. \<not> outOfBounds ?U center radius d) kDirs"
  have ne: "ds \<noteq> []"
    using assms(3) by (auto simp: ds_def noneInBounds_def list_all_iff filter_empty_conv)
  have "map (candidate ?U center radius) ds = map (\<lambda>_. Inr (0, ?P)) ds"
    using assms(1,2) by (intro map_cong refl) (simp add: ds_def candidate_uniform)
  then have m: "map (candidate ?U center radius) ds = map Inr (replicate (length ds) (0, ?P))"
    by (simp add: map_replicate_const)
  have "replicate (length ds) (0, ?P) \<noteq> []" using ne by simp
  from foldl_pick_Infinity [OF this] obtain k where "k < length ds"
    "foldl pick (Infinity, []) (replicate (length ds) (0, ?P)) =
       (Fin (fst (replicate (length ds) (0, ?P) ! k)), snd (replicate (length ds) (0, ?P) ! k))"
    by auto
  then have r: "snd (foldl pick (Infinity, []) (replicate (length ds) (0, ?P))) = ?P"
    by simp
  have "selectBestPatch ?U center radius =
      (case collect (map (candidate ?U center radius) ds) of
         Inl e \<Rightarrow> Inl e
       | Inr cs \<Rightarrow> Inr (snd (foldl pick (Infinity, []) cs)))"
    unfolding ds_def by (rule selectBestPatch_collect)
  also have "\<dots> = Inr (snd (foldl pick (Infinity, []) (replicate (length ds) (0, ?P))))"
    by (simp only: m collect_map_Inr sum.case)
  also have "\<dots> = Inr ?P"
    by (simp only: r)
  finally show ?thesis .
qed

lemma grayImage_click:
  "onMouse stubOpenCV EVENT_LBUTTONDOWN 0 0 grayImage = Inr blackImage"
proof -
  have n: "\<not> noneInBounds (replicate 50 (replicate 50 (gray 100))) (0, 0) 20" by code_simp
  have "selectBestPatch (replicate 50 (replicate 50 (gray 100))) (0, 0) 20 =
      Inr (replicate (nat (2 * 20 + 1)) (replicate (nat (2 * 20 + 1)) (gray 100)))"
    using n by (intro selectBestPatch_uniform) simp_all
  then have s: "selectBestPatch grayImage (0, 0) kDefaultRad = Inr (replicate 41 (replicate 41 (gray 100)))"
    by (simp add: grayImage_def kDefaultRad_def)
  have e: "\<not> empty_mat (replicate 41 (replicate 41 (gray 100)))"
    by (simp add: empty_mat_def)
  have "onMouse stubOpenCV EVENT_LBUTTONDOWN 0 0 grayImage =
      Inr (map (map (\<lambda>_. gray 0)) grayImage)"
    by (simp add: onMouse_def s e stubOpenCV_def Let_def)
  also have "map (map (\<lambda>_. gray 0)) grayImage = blackImage"
    by (simp add: grayImage_def blackImage_def)
  finally show ?thesis .
qed

text \<open>
  C3. When \<open>selectBestPatch\<close> yields no donor at a clicked point, \<open>onMouse\<close> returns
  without raising and leaves \<open>g_sourceImage\<close> as it was; the mouse events that follow are
  processed from that unchanged image.
\<close>

theorem onMouse_skips_without_donor:
  assumes "selectBestPatch g (x, y) kDefaultRad = Inr patch" "empty_mat patch"
  shows "onMouse cv EVENT_LBUTTONDOWN x y g = Inr g \<and>
         (\<forall>ms1 ms2 g0. dispatch cv ms1 g0 = Inr g \<longrightarrow>
            dispatch cv (ms1 @ (EVENT_LBUTTONDOWN, x, y) # ms2) g0 = dispatch cv ms2 g)"
  using assms by (simp add: onMouse_no_donor dispatch_append)

theorem onMouse_skips_without_donor_witness:
  "onMouse stubOpenCV EVENT_LBUTTONDOWN 25 25 grayImage = Inr grayImage \<and>
   dispatch stubOpenCV ([] @ (EVENT_LBUTTONDOWN, 25, 25) # [(EVENT_LBUTTONDOWN, 0, 0)]) grayImage
     = Inr blackImage"
proof -
  have s: "selectBestPatch grayImage (25, 25) kDefaultRad = Inr []" by code_simp
  have e: "empty_mat ([] :: pixel mat)" by (simp add: empty_mat_def rows_def)
  have d: "dispatch stubOpenCV [] grayImage = Inr grayImage" by simp
  have "dispatch stubOpenCV [(EVENT_LBUTTONDOWN, 0, 0)] grayImage = Inr blackImage"
    by (simp add: grayImage_click)
  then show ?thesis
    using onMouse_skips_without_donor [OF s e, of stubOpenCV] d by simp
qed

text \<open>
  C10. While the loop of \<open>runBlemishRemoval\<close> is running, whatever clicks were processed
  before, an iteration whose key code is \<open>'c'\<close> (99) or \<open>'C'\<close> (67) in its low byte
  leaves \<open>g_sourceImage\<close> equal to the image the function was called with.
\<close>

theorem reset_restores_original:
  assumes "runBlemishRemoval cv img ts = Inr (False, g)"
    and "dispatch cv ms g = Inr g'"
    and "k AND 255 = 99 \<or> k AND 255 = 67"
  shows "runBlemishRemoval cv img (ts @ [(ms, k)]) = Inr (False, img)"
  using assms by (auto simp: runBlemishRemoval_def eventLoop_append clone_def Let_def)

theorem reset_restores_original_witness:
  "runBlemishRemoval stubOpenCV grayImage [([(EVENT_LBUTTONDOWN, 0, 0)], - 1)] = Inr (False, blackImage) \<and>
   runBlemishRemoval stubOpenCV grayImage ([([(EVENT_LBUTTONDOWN, 0, 0)], - 1)] @ [([], 99)])
     = Inr (False, grayImage)"
proof -
  have k: "(- 1 :: int) AND 255 = 255" by simp
  have a: "runBlemishRemoval stubOpenCV grayImage [([(EVENT_LBUTTONDOWN, 0, 0)], - 1)] = Inr (False, blackImage)"
    by (simp add: runBlemishRemoval_def clone_def grayImage_click k)
  have b: "dispatch stubOpenCV [] blackImage = Inr blackImage" by simp
  have c: "(99 :: int) AND 255 = 99 \<or> (99 :: int) AND 255 = 67" by simp
  show ?thesis
    using a reset_restores_original [OF a b c] by simp
qed

section \<open>Properties of the functions in memory\<close>

lemma pixels_append:
  assumes "validMat mem m"
  shows "pixels (mem @ xs) m = pixels mem m"
  using assms by (cases m) (simp_all add: nth_append)

lemma Mat_rows_append:
  assumes "validMat mem m"
  shows "Mat_rows (mem @ xs) m = Mat_rows mem m"
  using assms by (cases m) (simp_all add: nth_append)

lemma Mat_cols_append:
  assumes "validMat mem m"
  shows "Mat_cols (mem @ xs) m = Mat_cols mem m"
  using assms by (cases m) (simp_all add: nth_append)

lemma validMat_append:
  assumes "validMat mem m"
  shows "validMat (mem @ xs) m"
  using assms by (cases m) simp_all

lemma Mat_range_append:
  assumes "validMat mem m"
  shows "Mat_range (mem @ xs) m rr cr = Mat_range mem m rr cr"
  using assms by (simp add: Mat_range_def Mat_rows_append Mat_cols_append)

lemma outOfBounds_mem_append:
  assumes "validMat mem m"
  shows "outOfBounds_mem (mem @ xs) m center radius d = outOfBounds_mem mem m center radius d"
  using assms by (simp add: outOfBounds_mem_def Mat_rows_append Mat_cols_append)

lemma Mat_range_valid:
  assumes "Mat_range mem m rr cr = Inr p" "validMat mem m"
  shows "validMat mem p"
  using assms by (cases m) (auto simp: Mat_range_def Let_def split: if_splits)

lemma computePatchVariance_mem_value:
  "map_sum id fst (computePatchVariance_mem mem patch) = computePatchVariance (pixels mem patch)"
  by (simp add: computePatchVariance_mem_def computePatchVariance_def alloc_def Let_def
      split: sum.splits)

lemma computePatchVariance_mem_extends:
  assumes "computePatchVariance_mem mem patch = Inr (var, mem1)"
  shows "\<exists>xs. mem1 = mem @ xs"
  using assms
  by (auto simp: computePatchVariance_mem_def alloc_def split: sum.splits)

lemma computePatchVariance_mem_nonempty:
  assumes "computePatchVariance_mem mem patch = Inr (var, mem1)"
  shows "patch \<noteq> EmptyMat"
proof
  assume "patch = EmptyMat"
  then have "computePatchVariance_mem mem patch = Inl EmptySource"
    by (simp add: computePatchVariance_mem_def cvtColor_split_V_def empty_mat_def rows_def)
  with assms show False by simp
qed

lemma Mat_clone_fresh:
  assumes "Mat_clone mem m = (c, mem')" "m \<noteq> EmptyMat"
  shows "c = Full (length mem) \<and> mem' = mem @ [Buf8UC3 (pixels mem m)] \<and> pixels mem' c = pixels mem m"
  using assms by (cases m) (auto simp: Mat_clone_def alloc_def)


lemma selectLoop_mem_frame:
  assumes "selectLoop_mem mem img center radius ds (mv, bp) = Inr ((mv', bp'), mem')"
    and "validMat mem img"
  shows "\<exists>xs. mem' = mem @ xs \<and>
           (bp' = bp \<or>
            (\<exists>a d patch. bp' = Full a \<and> length mem \<le> a \<and> a < length mem' \<and> d \<in> set ds \<and>
               Mat_range mem img (bound_y0 center radius d, bound_y1 center radius d)
                                 (bound_x0 center radius d, bound_x1 center radius d) = Inr patch \<and>
               pixels mem' bp' = pixels mem patch))"
  using assms
proof (induction ds arbitrary: mem mv bp)
  case Nil
  then show ?case by simp
next
  case (Cons d ds)
  let ?rr = "\<lambda>d. (bound_y0 center radius d, bound_y1 center radius d)"
  let ?cr = "\<lambda>d. (bound_x0 center radius d, bound_x1 center radius d)"
  show ?case
  proof (cases "outOfBounds_mem mem img center radius d")
    case True
    with Cons.prems have "selectLoop_mem mem img center radius ds (mv, bp) = Inr ((mv', bp'), mem')"
      by simp
    from Cons.IH [OF this Cons.prems(2)] show ?thesis by auto
  next
    case False
    with Cons.prems(1) obtain patch var mem1 where
      patch: "Mat_range mem img (?rr d) (?cr d) = Inr patch"
      and cpv: "computePatchVariance_mem mem patch = Inr (var, mem1)"
      by (auto split: sum.splits)
    from computePatchVariance_mem_extends [OF cpv] obtain xs1 where mem1: "mem1 = mem @ xs1" by blast
    have vp: "validMat mem patch" using patch Cons.prems(2) by (rule Mat_range_valid)
    have v1: "validMat mem1 img" unfolding mem1 using Cons.prems(2) by (rule validMat_append)
    have range1: "Mat_range mem1 img rr cr = Mat_range mem img rr cr" for rr cr
      unfolding mem1 using Cons.prems(2) by (rule Mat_range_append)
    show ?thesis
    proof (cases "less_double var mv")
      case lt: True
      obtain copy mem2 where cl: "Mat_clone mem1 patch = (copy, mem2)" by (cases "Mat_clone mem1 patch")
      have ne: "patch \<noteq> EmptyMat" using cpv by (rule computePatchVariance_mem_nonempty)
      from Mat_clone_fresh [OF cl ne] have copy: "copy = Full (length mem1)"
        and mem2: "mem2 = mem1 @ [Buf8UC3 (pixels mem1 patch)]"
        and pc: "pixels mem2 copy = pixels mem1 patch" by simp_all
      have p1: "pixels mem1 patch = pixels mem patch"
        unfolding mem1 using vp by (rule pixels_append)
      have v2: "validMat mem2 img" unfolding mem2 using v1 by (rule validMat_append)
      have range2: "Mat_range mem2 img rr cr = Mat_range mem img rr cr" for rr cr
        unfolding mem2 using v1 range1 by (simp add: Mat_range_append)
      have rec: "selectLoop_mem mem2 img center radius ds (Fin var, copy) = Inr ((mv', bp'), mem')"
        using Cons.prems(1) False patch cpv lt cl by simp
      from Cons.IH [OF rec v2] obtain xs where xs: "mem' = mem2 @ xs"
        and alt: "bp' = copy \<or>
            (\<exists>a d patch. bp' = Full a \<and> length mem2 \<le> a \<and> a < length mem' \<and> d \<in> set ds \<and>
               Mat_range mem2 img (?rr d) (?cr d) = Inr patch \<and>
               pixels mem' bp' = pixels mem2 patch)"
        by blast
      have grown: "mem' = mem @ (xs1 @ [Buf8UC3 (pixels mem1 patch)] @ xs)"
        using xs mem2 mem1 by simp
      from alt have H: "\<exists>a e patch. bp' = Full a \<and> length mem \<le> a \<and> a < length mem' \<and> e \<in> set (d # ds) \<and>
               Mat_range mem img (?rr e) (?cr e) = Inr patch \<and>
               pixels mem' bp' = pixels mem patch"
      proof
        assume b: "bp' = copy"
        have "validMat mem2 copy" by (simp add: copy mem2)
        then have "pixels mem' copy = pixels mem2 copy"
          unfolding xs by (rule pixels_append)
        then have "pixels mem' bp' = pixels mem patch"
          using b pc p1 by simp
        moreover have "length mem \<le> length mem1" "length mem1 < length mem'"
          using mem1 mem2 xs by simp_all
        ultimately show ?thesis
          using b copy patch
          by (intro exI [of _ "length mem1"] exI [of _ d] exI [of _ patch]) simp
      next
        assume "\<exists>a d patch. bp' = Full a \<and> length mem2 \<le> a \<and> a < length mem' \<and> d \<in> set ds \<and>
               Mat_range mem2 img (?rr d) (?cr d) = Inr patch \<and>
               pixels mem' bp' = pixels mem2 patch"
        then obtain a d' patch' where a: "bp' = Full a" "length mem2 \<le> a" "a < length mem'"
          "d' \<in> set ds" "Mat_range mem2 img (?rr d') (?cr d') = Inr patch'"
          "pixels mem' bp' = pixels mem2 patch'" by blast
        have r: "Mat_range mem img (?rr d') (?cr d') = Inr patch'"
          using a(5) by (simp only: range2)
        then have "validMat mem patch'" using Cons.prems(2) by (rule Mat_range_valid)
        then have "pixels mem2 patch' = pixels mem patch'"
          unfolding mem2 mem1 append_assoc by (rule pixels_append)
        moreover have "length mem \<le> a" using a(2) mem2 mem1 by simp
        ultimately show ?thesis
          using a r by (intro exI [of _ a] exI [of _ d'] exI [of _ patch']) simp
      qed
      from H have H': "bp' = bp \<or> (\<exists>a e patch. bp' = Full a \<and> length mem \<le> a \<and> a < length mem' \<and>
               e \<in> set (d # ds) \<and>
               Mat_range mem img (?rr e) (?cr e) = Inr patch \<and>
               pixels mem' bp' = pixels mem patch)"
        by (rule disjI2)
      show ?thesis
      proof (intro exI conjI)
        show "mem' = mem @ (xs1 @ [Buf8UC3 (pixels mem1 patch)] @ xs)" by (rule grown)
        show "bp' = bp \<or> (\<exists>a e patch. bp' = Full a \<and> length mem \<le> a \<and> a < length mem' \<and>
               e \<in> set (d # ds) \<and>
               Mat_range mem img (?rr e) (?cr e) = Inr patch \<and>
               pixels mem' bp' = pixels mem patch)" by (rule H')
      qed
    next
      case ge: False
      have rec: "selectLoop_mem mem1 img center radius ds (mv, bp) = Inr ((mv', bp'), mem')"
        using Cons.prems(1) False patch cpv ge by simp
      from Cons.IH [OF rec v1] obtain xs where xs: "mem' = mem1 @ xs"
        and alt: "bp' = bp \<or>
            (\<exists>a d patch. bp' = Full a \<and> length mem1 \<le> a \<and> a < length mem' \<and> d \<in> set ds \<and>
               Mat_range mem1 img (?rr d) (?cr d) = Inr patch \<and>
               pixels mem' bp' = pixels mem1 patch)"
        by blast
      have grown: "mem' = mem @ (xs1 @ xs)" using xs mem1 by simp
      from alt have H: "bp' = bp \<or> (\<exists>a e patch. bp' = Full a \<and> length mem \<le> a \<and> a < length mem' \<and> e \<in> set (d # ds) \<and>
               Mat_range mem img (?rr e) (?cr e) = Inr patch \<and>
               pixels mem' bp' = pixels mem patch)"
      proof
        assume "bp' = bp" then show ?thesis by simp
      next
        assume "\<exists>a d patch. bp' = Full a \<and> length mem1 \<le> a \<and> a < length mem' \<and> d \<in> set ds \<and>
               Mat_range mem1 img (?rr d) (?cr d) = Inr patch \<and>
               pixels mem' bp' = pixels mem1 patch"
        then obtain a d' patch' where a: "bp' = Full a" "length mem1 \<le> a" "a < length mem'"
          "d' \<in> set ds" "Mat_range mem1 img (?rr d') (?cr d') = Inr patch'"
          "pixels mem' bp' = pixels mem1 patch'" by blast
        have r: "Mat_range mem img (?rr d') (?cr d') = Inr patch'"
          using a(5) by (simp only: range1)
        then have "validMat mem patch'" using Cons.prems(2) by (rule Mat_range_valid)
        then have "pixels mem1 patch' = pixels mem patch'"
          unfolding mem1 by (rule pixels_append)
        moreover have "length mem \<le> a" using a(2) mem1 by simp
        ultimately have "\<exists>a e patch. bp' = Full a \<and> length mem \<le> a \<and> a < length mem' \<and>
               e \<in> set (d # ds) \<and>
               Mat_range mem img (?rr e) (?cr e) = Inr patch \<and>
               pixels mem' bp' = pixels mem patch"
          using a r by (intro exI [of _ a] exI [of _ d'] exI [of _ patch']) simp
        then show ?thesis by (rule disjI2)
      qed
      show ?thesis
      proof (intro exI conjI)
        show "mem' = mem @ (xs1 @ xs)" by (rule grown)
        show "bp' = bp \<or> (\<exists>a e patch. bp' = Full a \<and> length mem \<le> a \<and> a < length mem' \<and>
               e \<in> set (d # ds) \<and>
               Mat_range mem img (?rr e) (?cr e) = Inr patch \<and>
               pixels mem' bp' = pixels mem patch)" by (rule H)
      qed
    qed
  qed
qed

lemma Mat_range_Full:
  "Mat_range mem (Full a) (y0, y1) (x0, x1) =
     (case submat (pixelsOf (mem ! a)) (y0, y1) (x0, x1) of
        Inl e \<Rightarrow> Inl e
      | Inr p \<Rightarrow> Inr (Roi a y0 x0 (y1 - y0) (x1 - x0)))"
  by (simp add: Mat_range_def submat_def)

lemma pixels_Roi_submat:
  assumes "submat (pixelsOf (mem ! a)) (y0, y1) (x0, x1) = Inr p"
  shows "pixels mem (Roi a y0 x0 (y1 - y0) (x1 - x0)) = p"
  using assms by (auto simp: submat_def window_def Let_def split: if_splits)

lemma selectLoop_mem_refines:
  assumes "a < length mem" "validMat mem bp"
  shows "map_sum (\<lambda>e. e) shownState
           (selectLoop_mem mem (Full a) center radius ds (mv, bp)) =
         selectLoop (pixelsOf (mem ! a)) center radius ds (mv, pixels mem bp)"
  using assms
proof (induction ds arbitrary: mem mv bp)
  case Nil
  show ?case by simp
next
  case (Cons d ds)
  let ?I = "pixelsOf (mem ! a)"
  let ?rr = "(bound_y0 center radius d, bound_y1 center radius d)"
  let ?cr = "(bound_x0 center radius d, bound_x1 center radius d)"
  have oob: "outOfBounds_mem mem (Full a) center radius d = outOfBounds ?I center radius d"
    by (simp add: outOfBounds_mem_def outOfBounds_def)
  show ?case
  proof (cases "outOfBounds ?I center radius d")
    case True
    then show ?thesis using Cons.IH [OF Cons.prems] oob by simp
  next
    case inb: False
    show ?thesis
    proof (cases "submat ?I ?rr ?cr")
      case (Inl e)
      then show ?thesis using inb oob by (simp add: Mat_range_Full)
    next
      case (Inr p)
      let ?patch = "Roi a (bound_y0 center radius d) (bound_x0 center radius d)
          (bound_y1 center radius d - bound_y0 center radius d)
          (bound_x1 center radius d - bound_x0 center radius d)"
      have range: "Mat_range mem (Full a) ?rr ?cr = Inr ?patch"
        using Inr by (simp add: Mat_range_Full)
      have pp: "pixels mem ?patch = p" using Inr by (rule pixels_Roi_submat)
      have vp: "validMat mem ?patch" using Cons.prems(1) by simp
      show ?thesis
      proof (cases "computePatchVariance_mem mem ?patch")
        case cl: (Inl e)
        then have "computePatchVariance p = Inl e"
          using computePatchVariance_mem_value [of mem ?patch] pp by simp
        then show ?thesis using inb oob range cl Inr by simp
      next
        case cr: (Inr r)
        obtain var mem1 where r: "r = (var, mem1)" by (cases r)
        have cpv: "computePatchVariance_mem mem ?patch = Inr (var, mem1)" using cr r by simp
        then have val: "computePatchVariance p = Inr var"
          using computePatchVariance_mem_value [of mem ?patch] pp by simp
        from computePatchVariance_mem_extends [OF cpv] obtain xs1 where mem1: "mem1 = mem @ xs1"
          by blast
        have a1: "a < length mem1" "pixelsOf (mem1 ! a) = ?I"
          using Cons.prems(1) by (simp_all add: mem1 nth_append)
        show ?thesis
        proof (cases "less_double var mv")
          case lt: True
          obtain copy mem2 where cl: "Mat_clone mem1 ?patch = (copy, mem2)"
            by (cases "Mat_clone mem1 ?patch")
          from Mat_clone_fresh [OF cl] have copy: "copy = Full (length mem1)"
            and mem2: "mem2 = mem1 @ [Buf8UC3 (pixels mem1 ?patch)]"
            and pc: "pixels mem2 copy = pixels mem1 ?patch" by simp_all
          have p1: "pixels mem1 ?patch = p"
            unfolding mem1 using pixels_append [OF vp] pp by simp
          have a2: "a < length mem2" "pixelsOf (mem2 ! a) = ?I"
            using a1 by (simp_all add: mem2 nth_append)
          have v2: "validMat mem2 copy" by (simp add: copy mem2)
          have "map_sum (\<lambda>e. e) shownState
                  (selectLoop_mem mem2 (Full a) center radius ds (Fin var, copy)) =
                selectLoop (pixelsOf (mem2 ! a)) center radius ds (Fin var, pixels mem2 copy)"
            using a2(1) v2 by (rule Cons.IH)
          then show ?thesis
            using inb oob range cpv val Inr lt cl a2(2) pc p1 by (simp add: clone_def)
        next
          case ge: False
          have v1: "validMat mem1 bp" unfolding mem1 using Cons.prems(2) by (rule validMat_append)
          have pb: "pixels mem1 bp = pixels mem bp"
            unfolding mem1 using Cons.prems(2) by (rule pixels_append)
          have "map_sum (\<lambda>e. e) shownState
                  (selectLoop_mem mem1 (Full a) center radius ds (mv, bp)) =
                selectLoop (pixelsOf (mem1 ! a)) center radius ds (mv, pixels mem1 bp)"
            using a1(1) v1 by (rule Cons.IH)
          then show ?thesis
            using inb oob range cpv val Inr ge a1(2) pb by simp
        qed
      qed
    qed
  qed
qed

lemma selectBestPatch_mem_refines:
  assumes "a < length mem"
  shows "map_sum (\<lambda>e. e) shownPatch
           (selectBestPatch_mem mem (Full a) center radius) =
         selectBestPatch (pixels mem (Full a)) center radius"
proof -
  have "map_sum (\<lambda>e. e) shownState
           (selectLoop_mem mem (Full a) center radius kDirs (Infinity, EmptyMat)) =
         selectLoop (pixelsOf (mem ! a)) center radius kDirs (Infinity, pixels mem EmptyMat)"
    using assms by (intro selectLoop_mem_refines) simp_all
  then show ?thesis
    by (cases "selectLoop_mem mem (Full a) center radius kDirs (Infinity, EmptyMat)";
        cases "selectLoop (pixelsOf (mem ! a)) center radius kDirs (Infinity, [])")
      (auto simp: selectBestPatch_mem_def selectBestPatch_def)
qed

lemma pixels_update_fresh:
  assumes "validMat mem m" "length mem \<le> a"
  shows "pixels ((mem @ xs)[a := b]) m = pixels mem m"
  using assms by (cases m) (simp_all add: nth_append)

lemma selectBestPatch_mem_frame:
  assumes "selectBestPatch_mem mem img center radius = Inr (best, mem')" "validMat mem img"
  shows "take (length mem) mem' = mem \<and> pixels mem' img = pixels mem img \<and>
         (best = EmptyMat \<or>
          (\<exists>e patch. e \<in> set kDirs \<and>
             Mat_range mem img (bound_y0 center radius e, bound_y1 center radius e)
                               (bound_x0 center radius e, bound_x1 center radius e) = Inr patch \<and>
             pixels mem' best = pixels mem patch)) \<and>
         (\<forall>b. pixels (overwrite mem' best b) img = pixels mem img)"
proof -
  from assms(1) obtain mv' where
    loop: "selectLoop_mem mem img center radius kDirs (Infinity, EmptyMat) = Inr ((mv', best), mem')"
    by (auto simp: selectBestPatch_mem_def split: sum.splits)
  from selectLoop_mem_frame [OF loop assms(2)] obtain xs where xs: "mem' = mem @ xs"
    and alt: "best = EmptyMat \<or>
            (\<exists>a e patch. best = Full a \<and> length mem \<le> a \<and> a < length mem' \<and> e \<in> set kDirs \<and>
               Mat_range mem img (bound_y0 center radius e, bound_y1 center radius e)
                                 (bound_x0 center radius e, bound_x1 center radius e) = Inr patch \<and>
               pixels mem' best = pixels mem patch)"
    by blast
  have p: "pixels mem' img = pixels mem img"
    unfolding xs using assms(2) by (rule pixels_append)
  have o: "pixels (overwrite mem' best b) img = pixels mem img" for b
    using alt
  proof
    assume "best = EmptyMat"
    then show ?thesis using p by simp
  next
    assume "\<exists>a e patch. best = Full a \<and> length mem \<le> a \<and> a < length mem' \<and> e \<in> set kDirs \<and>
               Mat_range mem img (bound_y0 center radius e, bound_y1 center radius e)
                                 (bound_x0 center radius e, bound_x1 center radius e) = Inr patch \<and>
               pixels mem' best = pixels mem patch"
    then obtain a where "best = Full a" "length mem \<le> a" by blast
    then show ?thesis
      using pixels_update_fresh [OF assms(2), of a xs b] xs by simp
  qed
  have c: "best = EmptyMat \<or>
          (\<exists>e patch. e \<in> set kDirs \<and>
             Mat_range mem img (bound_y0 center radius e, bound_y1 center radius e)
                               (bound_x0 center radius e, bound_x1 center radius e) = Inr patch \<and>
             pixels mem' best = pixels mem patch)"
    using alt by blast
  have t: "take (length mem) mem' = mem" by (simp add: xs)
  from t p c o show ?thesis by blast
qed

lemma computePatchVariance_mem_frame:
  assumes "computePatchVariance_mem mem patch = Inr (var, mem1)" "validMat mem patch"
  shows "take (length mem) mem1 = mem \<and> pixels mem1 patch = pixels mem patch"
proof -
  from computePatchVariance_mem_extends [OF assms(1)] obtain xs where "mem1 = mem @ xs" by blast
  then show ?thesis using assms(2) by (simp add: pixels_append)
qed

lemma not_isl_Inr:
  assumes "\<not> isl x"
  shows "\<exists>a b. x = Inr (a, b)"
  using assms by (cases x) auto

text \<open>
  C7. Neither function writes a buffer that existed before the call. After
  \<open>computePatchVariance\<close> every earlier buffer is as it was and the patch shows the same
  pixels. After \<open>selectBestPatch\<close> every earlier buffer is as it was and the image shows
  the same pixels; the returned matrix is empty or a copy, in a buffer allocated during the
  call, of the pixels of a candidate patch, so overwriting its buffer afterwards leaves
  the pixels of the image as they were. For an image that owns its whole buffer the
  returned copy shows exactly the patch that the value-level \<open>selectBestPatch\<close> returns.
\<close>

theorem patches_never_mutated:
  assumes "validMat mem patch" "validMat mem img"
  shows "(\<forall>var mem1. computePatchVariance_mem mem patch = Inr (var, mem1) \<longrightarrow>
            take (length mem) mem1 = mem \<and> pixels mem1 patch = pixels mem patch) \<and>
         (\<forall>best mem'. selectBestPatch_mem mem img center radius = Inr (best, mem') \<longrightarrow>
            take (length mem) mem' = mem \<and> pixels mem' img = pixels mem img \<and>
            (best = EmptyMat \<or>
             (\<exists>e patch. e \<in> set kDirs \<and>
                Mat_range mem img (bound_y0 center radius e, bound_y1 center radius e)
                                  (bound_x0 center radius e, bound_x1 center radius e) = Inr patch \<and>
                pixels mem' best = pixels mem patch)) \<and>
            (\<forall>b. pixels (overwrite mem' best b) img = pixels mem img)) \<and>
         (\<forall>a. img = Full a \<longrightarrow>
            map_sum (\<lambda>e. e) shownPatch (selectBestPatch_mem mem img center radius) =
            selectBestPatch (pixels mem img) center radius)"
proof (intro conjI allI impI)
  fix var mem1
  assume "computePatchVariance_mem mem patch = Inr (var, mem1)"
  from computePatchVariance_mem_frame [OF this assms(1)]
  show "take (length mem) mem1 = mem" "pixels mem1 patch = pixels mem patch" by simp_all
next
  fix best mem'
  assume "selectBestPatch_mem mem img center radius = Inr (best, mem')"
  note f = selectBestPatch_mem_frame [OF this assms(2)]
  from f show "take (length mem) mem' = mem" by (rule conjunct1)
  from f show "pixels mem' img = pixels mem img" by blast
  from f show "best = EmptyMat \<or>
             (\<exists>e patch. e \<in> set kDirs \<and>
                Mat_range mem img (bound_y0 center radius e, bound_y1 center radius e)
                                  (bound_x0 center radius e, bound_x1 center radius e) = Inr patch \<and>
                pixels mem' best = pixels mem patch)" by blast
  fix b
  from f show "pixels (overwrite mem' best b) img = pixels mem img" by blast
next
  fix a
  assume "img = Full a"
  then show "map_sum (\<lambda>e. e) shownPatch (selectBestPatch_mem mem img center radius) =
            selectBestPatch (pixels mem img) center radius"
    using assms(2) selectBestPatch_mem_refines [of a mem center radius] by simp
qed

theorem patches_never_mutated_witness:
  "validMat exampleMemory (Roi 0 3 4 3 3) \<and> validMat exampleMemory (Full 0) \<and>
   (\<exists>var mem1. computePatchVariance_mem exampleMemory (Roi 0 3 4 3 3) = Inr (var, mem1) \<and>
      take (length exampleMemory) mem1 = exampleMemory \<and>
      pixels mem1 (Roi 0 3 4 3 3) = pixels exampleMemory (Roi 0 3 4 3 3)) \<and>
   (\<exists>best mem'. selectBestPatch_mem exampleMemory (Full 0) (0, 0) 1 = Inr (best, mem') \<and>
      take (length exampleMemory) mem' = exampleMemory \<and>
      pixels (overwrite mem' best (Buf8UC3 [])) (Full 0) = pixels exampleMemory (Full 0))"
proof -
  have v: "validMat exampleMemory (Roi 0 3 4 3 3)" "validMat exampleMemory (Full 0)"
    by (simp_all add: exampleMemory_def)
  have "\<not> isl (computePatchVariance_mem exampleMemory (Roi 0 3 4 3 3))" by code_simp
  then obtain var mem1 where
    c: "computePatchVariance_mem exampleMemory (Roi 0 3 4 3 3) = Inr (var, mem1)"
    using not_isl_Inr by blast
  have "\<not> isl (selectBestPatch_mem exampleMemory (Full 0) (0, 0) 1)" by code_simp
  then obtain best mem' where
    s: "selectBestPatch_mem exampleMemory (Full 0) (0, 0) 1 = Inr (best, mem')"
    using not_isl_Inr by blast
  note t = patches_never_mutated [OF v, of "(0, 0)" 1]
  from t c have "take (length exampleMemory) mem1 = exampleMemory \<and>
      pixels mem1 (Roi 0 3 4 3 3) = pixels exampleMemory (Roi 0 3 4 3 3)" by blast
  moreover from t s have "take (length exampleMemory) mem' = exampleMemory \<and>
      pixels (overwrite mem' best (Buf8UC3 [])) (Full 0) = pixels exampleMemory (Full 0)" by blast
  ultimately show ?thesis using v c s by blast
qed



end
